theory Spec2Isabelle
  imports Complex_Main "HOL-Library.Signed_Division" "HOL-Library.Product_Lexorder"
    "HOL-Library.Word"
begin

section \<open>The geometry kernel of hetbuilder (backend/math\_functions.cpp)\<close>

text \<open>
  The functions of \<^verbatim>\<open>math_functions.cpp\<close> are embedded one by one. A \<^verbatim>\<open>std::vector\<close> is a
  list, a \<^verbatim>\<open>std::vector<std::vector<T>>\<close> a list of rows. Reading or writing a vector outside
  its size, the remainder \<^verbatim>\<open>INT_MIN % -1\<close> and a division of a \<^verbatim>\<open>double\<close> by zero have no
  value that the model could return, so each of them is a \<open>fault\<close> and every function returns
  \<open>fault + result\<close>.

  Numbers: \<^verbatim>\<open>int\<close> is the 32-bit two's complement integer, modelled as \<open>int\<close> together
  with the range predicate \<open>is_int\<close>; \<^verbatim>\<open>%\<close> is the truncating remainder \<open>smod\<close>, the
  only \<^verbatim>\<open>int\<close> operation of \<^verbatim>\<open>get_gcd\<close> and \<^verbatim>\<open>find_gcd\<close> besides the loop counter.
  \<^verbatim>\<open>double\<close> is modelled by \<open>real\<close>: rounding is not part of the model. The sums,
  differences and products of the templates are those of the type they are instantiated at;
  the \<^verbatim>\<open>int\<close> instances of the matrix functions are the templates at \<open>32 word\<close>, where
  these operations wrap around as they do in the compiled code. A signed overflow is undefined
  in C++, so the values of an \<^verbatim>\<open>int\<close> instance are described where no operation overflows.
\<close>

datatype fault = OutOfBounds | RemOverflow | DivByZero

subsection \<open>Machine integers and the remainder operator\<close>

definition INT_MIN :: int where
  "INT_MIN = - (2 ^ 31)"

definition INT_MAX :: int where
  "INT_MAX = 2 ^ 31 - 1"

definition is_int :: "int \<Rightarrow> bool" where
  "is_int x \<longleftrightarrow> INT_MIN \<le> x \<and> x \<le> INT_MAX"

text \<open>
  \<^verbatim>\<open>b % a\<close> on \<^verbatim>\<open>int\<close>: undefined for \<open>a = 0\<close> and, because the quotient is not
  representable, for \<^verbatim>\<open>INT_MIN % -1\<close>; otherwise the remainder has the sign of \<open>b\<close>.
\<close>

definition rem_int :: "int \<Rightarrow> int \<Rightarrow> fault + int" where
  "rem_int b a =
     (if a = 0 then Inl DivByZero
      else if b = INT_MIN \<and> a = - 1 then Inl RemOverflow
      else Inr (b smod a))"

subsection \<open>get\_gcd\<close>

text \<open>
  \<^verbatim>\<open>int get_gcd(int a, int b) { if (a == 0) return b; return get_gcd(b % a, a); }\<close>
\<close>

function get_gcd :: "int \<Rightarrow> int \<Rightarrow> fault + int" where
  "get_gcd a b =
     (if a = 0 then Inr b
      else (case rem_int b a of
              Inl e \<Rightarrow> Inl e
            | Inr r \<Rightarrow> get_gcd r a))"
  by pat_completeness auto
termination
proof (relation "measure (\<lambda>(a, b). nat \<bar>a\<bar>)")
  show "wf (measure (\<lambda>(a, b). nat \<bar>a\<bar>))"
    by simp
next
  fix a b r :: int
  assume "a \<noteq> 0" and "rem_int b a = Inr r"
  then have "r = b smod a"
    by (simp add: rem_int_def split: if_splits)
  moreover have "\<bar>b smod a\<bar> < \<bar>a\<bar>"
    using \<open>a \<noteq> 0\<close> smod_int_range [where a = b and b = a] by auto
  ultimately show "((r, a), (a, b)) \<in> measure (\<lambda>(a, b). nat \<bar>a\<bar>)"
    by simp
qed

declare get_gcd.simps [simp del]

text \<open>
  The recursive call that \<open>get_gcd a b\<close> makes, if it makes one: \<open>None\<close> when the function
  returns (\<open>a = 0\<close>) or the remainder is undefined.
\<close>

definition get_gcd_call :: "int \<times> int \<Rightarrow> (int \<times> int) option" where
  "get_gcd_call = (\<lambda>(a, b).
     if a = 0 then None
     else (case rem_int b a of Inl e \<Rightarrow> None | Inr r \<Rightarrow> Some (r, a)))"

subsection \<open>find\_gcd\<close>

text \<open>
  The loop of \<^verbatim>\<open>find_gcd\<close>, from the index \<open>i\<close> with the current \<open>result\<close>:
  \<^verbatim>\<open>for (; i < n; i++) { result = get_gcd(arr[i], result); if (result == 1) return 1; }\<close>
\<close>

function find_gcd_loop :: "int list \<Rightarrow> int \<Rightarrow> int \<Rightarrow> int \<Rightarrow> fault + int" where
  "find_gcd_loop arr n i result =
     (if i < n then
        (if 0 \<le> i \<and> nat i < length arr then
           (case get_gcd (arr ! nat i) result of
              Inl e \<Rightarrow> Inl e
            | Inr r \<Rightarrow> if r = 1 then Inr 1 else find_gcd_loop arr n (i + 1) r)
         else Inl OutOfBounds)
      else Inr result)"
  by pat_completeness auto
termination
  by (relation "measure (\<lambda>(arr, n, i, result). nat (n - i))") auto

declare find_gcd_loop.simps [simp del]

text \<open>\<^verbatim>\<open>int result = arr[0];\<close> then the loop from \<open>i = 1\<close>.\<close>

definition find_gcd :: "int list \<Rightarrow> int \<Rightarrow> fault + int" where
  "find_gcd arr n =
     (if arr = [] then Inl OutOfBounds
      else find_gcd_loop arr n 1 (arr ! 0))"

subsection \<open>The templates over vectors and matrices\<close>

text \<open>
  A template parameter \<^verbatim>\<open>T\<close> is a type variable with the arithmetic the body uses. Where
  the body mixes \<^verbatim>\<open>T\<close> with another numeric type, C++ converts implicitly; the conversion is
  the parameter \<open>cv\<close>, which is the conversion of an \<^verbatim>\<open>int\<close> to a \<^verbatim>\<open>double\<close> in the \<^verbatim>\<open>int\<close>
  instances and the identity in the \<^verbatim>\<open>double\<close> instances.
\<close>

text \<open>
  \<^verbatim>\<open>for (int i = 0; i < 2; i++) result.push_back(basis[i][0] * vec[0] + basis[i][1] * vec[1]);\<close>
\<close>

definition basis_2x2_dot_2d_vector ::
  "('b \<Rightarrow> 'a::{plus,times}) \<Rightarrow> 'a list list \<Rightarrow> 'b list \<Rightarrow> fault + 'a list" where
  "basis_2x2_dot_2d_vector cv basis vec =
     (if 2 \<le> length basis \<and> 2 \<le> length (basis ! 0) \<and> 2 \<le> length (basis ! 1) \<and> 2 \<le> length vec
      then Inr (fold (\<lambda>i result.
                  result @ [basis ! i ! 0 * cv (vec ! 0) + basis ! i ! 1 * cv (vec ! 1)])
                [0..<2] [])
      else Inl OutOfBounds)"

text \<open>
  \<^verbatim>\<open>std::vector<double> result = {0.0, 0.0};\<close>
  \<^verbatim>\<open>double t = theta * 2 * M_PI / 180.0;\<close>
  \<^verbatim>\<open>double R[2][2] = {{cos(t), -sin(t)}, {sin(t), cos(t)}};\<close>
  \<^verbatim>\<open>result[0] = R[0][0] * vec[0] + R[0][1] * vec[1];\<close>
  \<^verbatim>\<open>result[1] = R[1][0] * vec[0] + R[1][1] * vec[1];\<close>
\<close>

definition rotate_2d_vector :: "('a \<Rightarrow> real) \<Rightarrow> 'a list \<Rightarrow> real \<Rightarrow> fault + real list" where
  "rotate_2d_vector cv vec theta =
     (let result = [0, 0];
          t = theta * 2 * pi / 180;
          R = [[cos t, - sin t], [sin t, cos t]]
      in if 2 \<le> length vec
         then (let result = result[0 := R ! 0 ! 0 * cv (vec ! 0) + R ! 0 ! 1 * cv (vec ! 1)];
                   result = result[1 := R ! 1 ! 0 * cv (vec ! 0) + R ! 1 ! 1 * cv (vec ! 1)]
               in Inr result)
         else Inl OutOfBounds)"

text \<open>
  \<^verbatim>\<open>norm = (Am[0] - RBn[0]) * (Am[0] - RBn[0]);\<close>
  \<^verbatim>\<open>norm += (Am[1] - RBn[1]) * (Am[1] - RBn[1]);\<close>
  \<^verbatim>\<open>norm = sqrt(norm);\<close>
\<close>

definition get_distance ::
  "('a::{minus,times} \<Rightarrow> real) \<Rightarrow> 'a list \<Rightarrow> 'a list \<Rightarrow> fault + real" where
  "get_distance cv Am RBn =
     (if 2 \<le> length Am \<and> 2 \<le> length RBn
      then (let norm = cv ((Am ! 0 - RBn ! 0) * (Am ! 0 - RBn ! 0));
                norm = norm + cv ((Am ! 1 - RBn ! 1) * (Am ! 1 - RBn ! 1));
                norm = sqrt norm
            in Inr norm)
      else Inl OutOfBounds)"

text \<open>
  The loop of \<^verbatim>\<open>vec1x3_dot_3x3_matrix\<close>, from the index \<open>i\<close> with the current \<open>b\<close>:
  \<^verbatim>\<open>for (; i < a.size(); i++)\<close>
  \<^verbatim>\<open>  b[i] = a[0] * matrix[0][i] + a[1] * matrix[1][i] + a[2] * matrix[2][i];\<close>
  One iteration reads \<open>a[0]\<close>, \<open>a[1]\<close>, \<open>a[2]\<close>, the entry \<open>i\<close> of the rows 0, 1 and 2 of
  the matrix, and writes \<open>b[i]\<close>.
\<close>

function vec1x3_dot_3x3_matrix_loop ::
  "'a::{zero,plus,times} list \<Rightarrow> 'a list list \<Rightarrow> nat \<Rightarrow> 'a list \<Rightarrow> fault + 'a list" where
  "vec1x3_dot_3x3_matrix_loop a matrix i b =
     (if i < length a then
        (if 3 \<le> length a \<and> 3 \<le> length matrix \<and> i < length (matrix ! 0) \<and>
            i < length (matrix ! 1) \<and> i < length (matrix ! 2) \<and> i < length b
         then vec1x3_dot_3x3_matrix_loop a matrix (i + 1)
                (b[i := a ! 0 * matrix ! 0 ! i + a ! 1 * matrix ! 1 ! i + a ! 2 * matrix ! 2 ! i])
         else Inl OutOfBounds)
      else Inr b)"
  by pat_completeness auto
termination
  by (relation "measure (\<lambda>(a, matrix, i, b). length a - i)") auto

declare vec1x3_dot_3x3_matrix_loop.simps [simp del]

text \<open>\<^verbatim>\<open>std::vector<T> b(3, 0);\<close> then the loop from \<open>i = 0\<close>.\<close>

definition vec1x3_dot_3x3_matrix ::
  "'a::{zero,plus,times} list \<Rightarrow> 'a list list \<Rightarrow> fault + 'a list" where
  "vec1x3_dot_3x3_matrix a matrix = vec1x3_dot_3x3_matrix_loop a matrix 0 (replicate 3 0)"

text \<open>
  The matrix functions read the rows 0, 1, 2 and, in each, the entries 0, 1, 2.
\<close>

definition at_least_3x3 :: "'a list list \<Rightarrow> bool" where
  "at_least_3x3 mat \<longleftrightarrow>
     3 \<le> length mat \<and> 3 \<le> length (mat ! 0) \<and> 3 \<le> length (mat ! 1) \<and> 3 \<le> length (mat ! 2)"

text \<open>
  \<^verbatim>\<open>double determinant = 0;\<close>
  \<^verbatim>\<open>for (int i = 0; i < 3; i++)\<close>
  \<^verbatim>\<open>  determinant = determinant + (mat[0][i] * (mat[1][(i + 1) % 3] * mat[2][(i + 2) % 3]\<close>
  \<^verbatim>\<open>                                            - mat[1][(i + 2) % 3] * mat[2][(i + 1) % 3]));\<close>
\<close>

definition get_3x3_matrix_determinant ::
  "('a::{minus,times} \<Rightarrow> real) \<Rightarrow> 'a list list \<Rightarrow> fault + real" where
  "get_3x3_matrix_determinant cv mat =
     (if at_least_3x3 mat
      then Inr (fold (\<lambda>i determinant.
                  determinant +
                  cv (mat ! 0 ! i *
                      (mat ! 1 ! ((i + 1) mod 3) * mat ! 2 ! ((i + 2) mod 3)
                       - mat ! 1 ! ((i + 2) mod 3) * mat ! 2 ! ((i + 1) mod 3))))
                [0..<3] 0)
      else Inl OutOfBounds)"

text \<open>
  \<^verbatim>\<open>double determinant = get_3x3_matrix_determinant(mat);\<close>
  \<^verbatim>\<open>std::vector<std::vector<double>> minv(3, std::vector<double>(3, 0));\<close>
  \<^verbatim>\<open>for (int i = 0; i < 3; i++)\<close>
  \<^verbatim>\<open>  for (int j = 0; j < 3; j++)\<close>
  \<^verbatim>\<open>    minv[i][j] = ((mat[(j + 1) % 3][(i + 1) % 3] * mat[(j + 2) % 3][(i + 2) % 3])\<close>
  \<^verbatim>\<open>                - (mat[(j + 1) % 3][(i + 2) % 3] * mat[(j + 2) % 3][(i + 1) % 3])) / determinant;\<close>
  A zero determinant makes every entry a quotient by zero, which is no real number: the fault
  \<open>DivByZero\<close>.
\<close>

definition invert_3x3_matrix ::
  "('a::{minus,times} \<Rightarrow> real) \<Rightarrow> 'a list list \<Rightarrow> fault + real list list" where
  "invert_3x3_matrix cv mat =
     (case get_3x3_matrix_determinant cv mat of
        Inl e \<Rightarrow> Inl e
      | Inr determinant \<Rightarrow>
          if determinant = 0 then Inl DivByZero
          else Inr (fold (\<lambda>i minv.
                      fold (\<lambda>j minv.
                        minv[i := (minv ! i)[j :=
                          cv (mat ! ((j + 1) mod 3) ! ((i + 1) mod 3) * mat ! ((j + 2) mod 3) ! ((i + 2) mod 3)
                              - mat ! ((j + 1) mod 3) ! ((i + 2) mod 3) * mat ! ((j + 2) mod 3) ! ((i + 1) mod 3))
                          / determinant]])
                      [0..<3] minv)
                    [0..<3] (replicate 3 (replicate 3 0))))"

subsection \<open>The int instances of the matrix functions\<close>

text \<open>
  The conversion of an \<^verbatim>\<open>int\<close> to a \<^verbatim>\<open>double\<close>, which is exact. With it,
  \<open>get_3x3_matrix_determinant int_to_double\<close> and \<open>invert_3x3_matrix int_to_double\<close> are the
  instances \<^verbatim>\<open>get_3x3_matrix_determinant<int>\<close> and \<^verbatim>\<open>invert_3x3_matrix<int>\<close>: the
  products and the difference are computed in \<^verbatim>\<open>int\<close> and converted afterwards.
\<close>

definition int_to_double :: "32 word \<Rightarrow> real" where
  "int_to_double w = real_of_int (sint w)"

text \<open>
  No \<^verbatim>\<open>int\<close> operation of the determinant loop overflows on the matrix with the integer
  entries \<open>m\<close>: the two products, their difference and the product with \<open>mat[0][i]\<close>, for each
  \<open>i\<close>.
\<close>

definition det_no_overflow :: "int list list \<Rightarrow> bool" where
  "det_no_overflow m \<longleftrightarrow>
     list_all (\<lambda>i.
        let p = m ! 1 ! ((i + 1) mod 3) * m ! 2 ! ((i + 2) mod 3);
            q = m ! 1 ! ((i + 2) mod 3) * m ! 2 ! ((i + 1) mod 3)
        in is_int p \<and> is_int q \<and> is_int (p - q) \<and> is_int (m ! 0 ! i * (p - q)))
       [0..<3]"

text \<open>
  No \<^verbatim>\<open>int\<close> operation of the loops of the inverse overflows: the two products and their
  difference, for each \<open>i\<close> and \<open>j\<close>.
\<close>

definition inv_no_overflow :: "int list list \<Rightarrow> bool" where
  "inv_no_overflow m \<longleftrightarrow>
     list_all (\<lambda>i. list_all (\<lambda>j.
        let p = m ! ((j + 1) mod 3) ! ((i + 1) mod 3) * m ! ((j + 2) mod 3) ! ((i + 2) mod 3);
            q = m ! ((j + 1) mod 3) ! ((i + 2) mod 3) * m ! ((j + 2) mod 3) ! ((i + 1) mod 3)
        in is_int p \<and> is_int q \<and> is_int (p - q))
       [0..<3]) [0..<3]"

text \<open>The nine entries of the matrix are at most \<open>B\<close> in absolute value.\<close>

definition entries_bounded :: "int \<Rightarrow> int list list \<Rightarrow> bool" where
  "entries_bounded B m \<longleftrightarrow> list_all (\<lambda>r. list_all (\<lambda>c. \<bar>m ! r ! c\<bar> \<le> B) [0..<3]) [0..<3]"

subsection \<open>Reference notions the kernel is compared with\<close>

text \<open>The rotation of the plane by \<open>theta\<close> degrees, counter-clockwise.\<close>

definition standard_rotation :: "real \<Rightarrow> real \<Rightarrow> real \<Rightarrow> real list" where
  "standard_rotation v0 v1 theta =
     [v0 * cos (theta * pi / 180) - v1 * sin (theta * pi / 180),
      v0 * sin (theta * pi / 180) + v1 * cos (theta * pi / 180)]"

text \<open>The determinant of a 3x3 matrix as the sum over the six permutations.\<close>

definition det3 :: "'a::comm_ring_1 list list \<Rightarrow> 'a" where
  "det3 m =
     m ! 0 ! 0 * m ! 1 ! 1 * m ! 2 ! 2 + m ! 0 ! 1 * m ! 1 ! 2 * m ! 2 ! 0
     + m ! 0 ! 2 * m ! 1 ! 0 * m ! 2 ! 1 - m ! 0 ! 2 * m ! 1 ! 1 * m ! 2 ! 0
     - m ! 0 ! 1 * m ! 1 ! 0 * m ! 2 ! 2 - m ! 0 ! 0 * m ! 1 ! 2 * m ! 2 ! 1"

text \<open>
  The adjugate: the entry \<open>(i, j)\<close> is the cofactor \<open>(j, i)\<close>, the signed determinant of the
  matrix without its row \<open>j\<close> and its column \<open>i\<close>.
\<close>

definition without :: "nat \<Rightarrow> 'a list \<Rightarrow> 'a list" where
  "without k xs = take k xs @ drop (Suc k) xs"

definition det2 :: "'a::comm_ring_1 list list \<Rightarrow> 'a" where
  "det2 m = m ! 0 ! 0 * m ! 1 ! 1 - m ! 0 ! 1 * m ! 1 ! 0"

definition cofactor :: "'a::comm_ring_1 list list \<Rightarrow> nat \<Rightarrow> nat \<Rightarrow> 'a" where
  "cofactor m r c = (- 1) ^ (r + c) * det2 (map (without c) (without r m))"

definition adjugate :: "'a::comm_ring_1 list list \<Rightarrow> 'a list list" where
  "adjugate m = map (\<lambda>i. map (\<lambda>j. cofactor m j i) [0..<3]) [0..<3]"

text \<open>The product of two 3x3 matrices and the identity matrix.\<close>

definition mat_mul3 :: "'a::comm_ring_1 list list \<Rightarrow> 'a list list \<Rightarrow> 'a list list" where
  "mat_mul3 x y =
     map (\<lambda>i. map (\<lambda>j. x ! i ! 0 * y ! 0 ! j + x ! i ! 1 * y ! 1 ! j + x ! i ! 2 * y ! 2 ! j) [0..<3])
       [0..<3]"

definition identity3 :: "'a::comm_ring_1 list list" where
  "identity3 = [[1, 0, 0], [0, 1, 0], [0, 0, 1]]"

definition is_3x3 :: "'a list list \<Rightarrow> bool" where
  "is_3x3 mat \<longleftrightarrow> length mat = 3 \<and> list_all (\<lambda>row. length row = 3) mat"

section \<open>The kernel with its reference parameters as state\<close>

text \<open>
  Most parameters of the kernel are references, several of them not \<^verbatim>\<open>const\<close>, so a call could
  write to its caller's vectors. To state what a call does to them, each function is embedded a
  second time as a state transformer: a \<open>frame\<close> holds the objects the reference parameters
  denote (\<open>refs\<close>) and the variable of the body that is assigned to (\<open>locals\<close>); every statement
  maps a frame to a frame, checking the indices it uses, and a call returns its value together
  with the final \<open>refs\<close>. After a fault nothing is known about the memory, so a faulting call
  has no final state.
\<close>

record ('r, 'l) frame =
  refs :: 'r
  locals :: 'l

text \<open>A loop over a fixed range of indices whose body may fault.\<close>

fun fold_sum :: "('x \<Rightarrow> 's \<Rightarrow> fault + 's) \<Rightarrow> 'x list \<Rightarrow> 's \<Rightarrow> fault + 's" where
  "fold_sum f [] s = Inr s"
| "fold_sum f (x # xs) s = (case f x s of Inl e \<Rightarrow> Inl e | Inr s' \<Rightarrow> fold_sum f xs s')"

text \<open>\<^verbatim>\<open>return\<close>: the returned local and the memory the caller sees afterwards.\<close>

definition returning :: "fault + ('r, 'l) frame \<Rightarrow> fault + ('l \<times> 'r)" where
  "returning res = (case res of Inl e \<Rightarrow> Inl e | Inr s \<Rightarrow> Inr (locals s, refs s))"

text \<open>What a call that does not touch the memory \<open>r\<close> looks like from outside.\<close>

definition leaving :: "'r \<Rightarrow> fault + 'x \<Rightarrow> fault + ('x \<times> 'r)" where
  "leaving r res = (case res of Inl e \<Rightarrow> Inl e | Inr x \<Rightarrow> Inr (x, r))"

definition basis_2x2_dot_2d_vector_step ::
  "('b \<Rightarrow> 'a::{plus,times}) \<Rightarrow> nat \<Rightarrow> ('a list list \<times> 'b list, 'a list) frame
     \<Rightarrow> fault + ('a list list \<times> 'b list, 'a list) frame" where
  "basis_2x2_dot_2d_vector_step cv i s =
     (case refs s of (basis, vec) \<Rightarrow>
        if i < length basis \<and> 2 \<le> length (basis ! i) \<and> 2 \<le> length vec
        then Inr (s\<lparr>locals :=
                    locals s @ [basis ! i ! 0 * cv (vec ! 0) + basis ! i ! 1 * cv (vec ! 1)]\<rparr>)
        else Inl OutOfBounds)"

definition basis_2x2_dot_2d_vector_st ::
  "('b \<Rightarrow> 'a::{plus,times}) \<Rightarrow> 'a list list \<Rightarrow> 'b list
     \<Rightarrow> fault + ('a list \<times> ('a list list \<times> 'b list))" where
  "basis_2x2_dot_2d_vector_st cv basis vec =
     returning (fold_sum (basis_2x2_dot_2d_vector_step cv) [0..<2]
                  \<lparr>refs = (basis, vec), locals = []\<rparr>)"

definition rotate_2d_vector_st ::
  "('a \<Rightarrow> real) \<Rightarrow> 'a list \<Rightarrow> real \<Rightarrow> fault + (real list \<times> ('a list \<times> real))" where
  "rotate_2d_vector_st cv vec theta =
     (let s = \<lparr>refs = (vec, theta), locals = [0, 0]\<rparr>;
          t = snd (refs s) * 2 * pi / 180;
          R = [[cos t, - sin t], [sin t, cos t]]
      in returning
           (if 2 \<le> length (fst (refs s))
            then (let s = s\<lparr>locals := (locals s)
                            [0 := R ! 0 ! 0 * cv (fst (refs s) ! 0) + R ! 0 ! 1 * cv (fst (refs s) ! 1)]\<rparr>;
                      s = s\<lparr>locals := (locals s)
                            [1 := R ! 1 ! 0 * cv (fst (refs s) ! 0) + R ! 1 ! 1 * cv (fst (refs s) ! 1)]\<rparr>
                  in Inr s)
            else Inl OutOfBounds))"

definition get_distance_st ::
  "('a::{minus,times} \<Rightarrow> real) \<Rightarrow> 'a list \<Rightarrow> 'a list \<Rightarrow> fault + (real \<times> ('a list \<times> 'a list))" where
  "get_distance_st cv Am RBn =
     (let s = \<lparr>refs = (Am, RBn), locals = 0\<rparr>
      in returning
           (case refs s of (Am, RBn) \<Rightarrow>
              if 2 \<le> length Am \<and> 2 \<le> length RBn
              then (let s = s\<lparr>locals := cv ((Am ! 0 - RBn ! 0) * (Am ! 0 - RBn ! 0))\<rparr>;
                        s = s\<lparr>locals := locals s + cv ((Am ! 1 - RBn ! 1) * (Am ! 1 - RBn ! 1))\<rparr>;
                        s = s\<lparr>locals := sqrt (locals s)\<rparr>
                    in Inr s)
              else Inl OutOfBounds))"

function find_gcd_st_loop ::
  "int \<Rightarrow> int \<Rightarrow> (int list, int) frame \<Rightarrow> fault + (int list, int) frame" where
  "find_gcd_st_loop n i s =
     (if i < n then
        (if 0 \<le> i \<and> nat i < length (refs s) then
           (case get_gcd (refs s ! nat i) (locals s) of
              Inl e \<Rightarrow> Inl e
            | Inr r \<Rightarrow> if r = 1 then Inr (s\<lparr>locals := 1\<rparr>)
                       else find_gcd_st_loop n (i + 1) (s\<lparr>locals := r\<rparr>))
         else Inl OutOfBounds)
      else Inr s)"
  by pat_completeness auto
termination
  by (relation "measure (\<lambda>(n, i, s). nat (n - i))") auto

declare find_gcd_st_loop.simps [simp del]

definition find_gcd_st :: "int list \<Rightarrow> int \<Rightarrow> fault + (int \<times> int list)" where
  "find_gcd_st arr n =
     returning (if arr = [] then Inl OutOfBounds
                else find_gcd_st_loop n 1 \<lparr>refs = arr, locals = arr ! 0\<rparr>)"

function vec1x3_dot_3x3_matrix_st_loop ::
  "nat \<Rightarrow> ('a::{zero,plus,times} list \<times> 'a list list, 'a list) frame
     \<Rightarrow> fault + ('a list \<times> 'a list list, 'a list) frame" where
  "vec1x3_dot_3x3_matrix_st_loop i s =
     (case refs s of (a, matrix) \<Rightarrow>
        if i < length a then
          (if 3 \<le> length a \<and> 3 \<le> length matrix \<and> i < length (matrix ! 0) \<and>
              i < length (matrix ! 1) \<and> i < length (matrix ! 2) \<and> i < length (locals s)
           then vec1x3_dot_3x3_matrix_st_loop (i + 1)
                  (s\<lparr>locals := (locals s)
                     [i := a ! 0 * matrix ! 0 ! i + a ! 1 * matrix ! 1 ! i + a ! 2 * matrix ! 2 ! i]\<rparr>)
           else Inl OutOfBounds)
        else Inr s)"
  by pat_completeness auto
termination
  by (relation "measure (\<lambda>(i, s). length (fst (refs s)) - i)") (auto simp: prod_eq_iff)

declare vec1x3_dot_3x3_matrix_st_loop.simps [simp del]

definition vec1x3_dot_3x3_matrix_st ::
  "'a::{zero,plus,times} list \<Rightarrow> 'a list list \<Rightarrow> fault + ('a list \<times> ('a list \<times> 'a list list))" where
  "vec1x3_dot_3x3_matrix_st a matrix =
     returning (vec1x3_dot_3x3_matrix_st_loop 0 \<lparr>refs = (a, matrix), locals = replicate 3 0\<rparr>)"

definition get_3x3_matrix_determinant_step ::
  "('a::{minus,times} \<Rightarrow> real) \<Rightarrow> nat \<Rightarrow> ('a list list, real) frame
     \<Rightarrow> fault + ('a list list, real) frame" where
  "get_3x3_matrix_determinant_step cv i s =
     (let mat = refs s in
      if 3 \<le> length mat \<and> i < length (mat ! 0) \<and>
         (i + 1) mod 3 < length (mat ! 1) \<and> (i + 2) mod 3 < length (mat ! 1) \<and>
         (i + 1) mod 3 < length (mat ! 2) \<and> (i + 2) mod 3 < length (mat ! 2)
      then Inr (s\<lparr>locals := locals s +
                  cv (mat ! 0 ! i *
                      (mat ! 1 ! ((i + 1) mod 3) * mat ! 2 ! ((i + 2) mod 3)
                       - mat ! 1 ! ((i + 2) mod 3) * mat ! 2 ! ((i + 1) mod 3)))\<rparr>)
      else Inl OutOfBounds)"

definition get_3x3_matrix_determinant_st ::
  "('a::{minus,times} \<Rightarrow> real) \<Rightarrow> 'a list list \<Rightarrow> fault + (real \<times> 'a list list)" where
  "get_3x3_matrix_determinant_st cv mat =
     returning (fold_sum (get_3x3_matrix_determinant_step cv) [0..<3] \<lparr>refs = mat, locals = 0\<rparr>)"

definition invert_3x3_matrix_step ::
  "('a::{minus,times} \<Rightarrow> real) \<Rightarrow> real \<Rightarrow> nat \<Rightarrow> nat \<Rightarrow> ('a list list, real list list) frame
     \<Rightarrow> fault + ('a list list, real list list) frame" where
  "invert_3x3_matrix_step cv determinant i j s =
     (let mat = refs s; minv = locals s in
      if (j + 1) mod 3 < length mat \<and> (j + 2) mod 3 < length mat \<and>
         (i + 1) mod 3 < length (mat ! ((j + 1) mod 3)) \<and>
         (i + 2) mod 3 < length (mat ! ((j + 1) mod 3)) \<and>
         (i + 1) mod 3 < length (mat ! ((j + 2) mod 3)) \<and>
         (i + 2) mod 3 < length (mat ! ((j + 2) mod 3)) \<and>
         i < length minv \<and> j < length (minv ! i)
      then (if determinant = 0 then Inl DivByZero
            else Inr (s\<lparr>locals := minv[i := (minv ! i)[j :=
                    cv (mat ! ((j + 1) mod 3) ! ((i + 1) mod 3) * mat ! ((j + 2) mod 3) ! ((i + 2) mod 3)
                        - mat ! ((j + 1) mod 3) ! ((i + 2) mod 3) * mat ! ((j + 2) mod 3) ! ((i + 1) mod 3))
                    / determinant]]\<rparr>))
      else Inl OutOfBounds)"

text \<open>
  \<^verbatim>\<open>invert_3x3_matrix\<close> passes its own reference on to \<^verbatim>\<open>get_3x3_matrix_determinant\<close> and goes
  on with the memory that call leaves.
\<close>

definition invert_3x3_matrix_st ::
  "('a::{minus,times} \<Rightarrow> real) \<Rightarrow> 'a list list \<Rightarrow> fault + (real list list \<times> 'a list list)" where
  "invert_3x3_matrix_st cv mat =
     (case get_3x3_matrix_determinant_st cv mat of
        Inl e \<Rightarrow> Inl e
      | Inr (determinant, mat') \<Rightarrow>
          returning
            (fold_sum (\<lambda>i. fold_sum (invert_3x3_matrix_step cv determinant i) [0..<3]) [0..<3]
               \<lparr>refs = mat', locals = replicate 3 (replicate 3 0)\<rparr>))"

section \<open>The lattice enumerator\<close>

text \<open>
  Modelled from the spec: the Lattice Enumerator (section 4.2 of the specification) has no
  code in \<^verbatim>\<open>math_functions.cpp\<close> or \<^verbatim>\<open>logging.cpp\<close>. A transformation matrix is a
  2x2 integer matrix, here the pair of its rows \<open>(m11, m12)\<close> and \<open>(m21, m22)\<close>; the supercell
  basis is the matrix times the lattice basis, so the rows are the coordinates of the two
  supercell vectors in the lattice basis.
\<close>

type_synonym mat2 = "(int \<times> int) \<times> (int \<times> int)"

text \<open>Modelled from the spec: the determinant of a transformation matrix.\<close>

definition det2x2 :: "mat2 \<Rightarrow> int" where
  "det2x2 = (\<lambda>((m11, m12), (m21, m22)). m11 * m22 - m12 * m21)"

text \<open>
  Modelled from the spec: the sublattice a transformation matrix generates, as the set of the
  integer combinations of its rows. The lattice basis is non-degenerate, so two matrices
  generate the same points exactly when they generate the same coordinates.
\<close>

definition sublattice :: "mat2 \<Rightarrow> (int \<times> int) set" where
  "sublattice = (\<lambda>((m11, m12), (m21, m22)).
     {(x * m11 + y * m21, x * m12 + y * m22) | x y. True})"

text \<open>
  Modelled from the spec: the canonicalization step, for which the specification names the
  Hermite normal form (an upper-triangular reduction). \<open>eliminate\<close> is Euclid's algorithm on
  the first column, by exchanging the rows and subtracting a multiple of one from the other,
  until the second row starts with 0.
\<close>

function eliminate :: "int \<times> int \<Rightarrow> int \<times> int \<Rightarrow> mat2" where
  "eliminate (a, b) (c, d) =
     (if c = 0 then ((a, b), (c, d))
      else eliminate (c, d) (a mod c, b - (a div c) * d))"
  by pat_completeness auto
termination
  by (relation "measure (\<lambda>(r1, r2). nat \<bar>fst r2\<bar>)") (auto simp: abs_mod_less)

declare eliminate.simps [simp del]

text \<open>
  Modelled from the spec: the Hermite normal form of a matrix. After the elimination both
  diagonal entries are made positive by negating rows, and the entry above the second one is
  reduced modulo it.
\<close>

definition hermite :: "mat2 \<Rightarrow> mat2" where
  "hermite M =
     (case eliminate (fst M) (snd M) of ((a, b), (c, d)) \<Rightarrow>
        (let r1 = (if a < 0 then (- a, - b) else (a, b));
             r2 = (if d < 0 then (- c, - d) else (c, d))
         in ((fst r1, snd r1 mod snd r2), r2)))"

text \<open>Modelled from the spec: the matrices in Hermite normal form.\<close>

definition canonical :: "mat2 \<Rightarrow> bool" where
  "canonical = (\<lambda>((a, b), (c, d)). 0 < a \<and> c = 0 \<and> 0 < d \<and> 0 \<le> b \<and> b < d)"

text \<open>
  Modelled from the spec: the integer entries \<open>(m11, m12, m21, m22)\<close> within a search radius
  derived from \<open>N_max\<close>. The specification does not give the radius; it is \<open>N_max\<close> here, which
  bounds every entry of a Hermite normal form with determinant at most \<open>N_max\<close>.
\<close>

definition candidates :: "int \<Rightarrow> mat2 list" where
  "candidates N =
     [((m11, m12), (m21, m22)).
        m11 \<leftarrow> [- N..N], m12 \<leftarrow> [- N..N], m21 \<leftarrow> [- N..N], m22 \<leftarrow> [- N..N]]"

text \<open>Modelled from the spec: the filter \<open>|det(M)|\<close> in \<open>[1, N_max]\<close>.\<close>

definition det_in_bound :: "int \<Rightarrow> mat2 \<Rightarrow> bool" where
  "det_in_bound N M \<longleftrightarrow> 1 \<le> \<bar>det2x2 M\<bar> \<and> \<bar>det2x2 M\<bar> \<le> N"

text \<open>
  Modelled from the spec: the enumerator. It enumerates the candidates, keeps those with the
  determinant in bound, canonicalizes them so that no matrix is emitted twice, and orders the
  sequence by increasing \<open>|det(M)|\<close>, then lexicographically on the entries. The lazy sequence
  is the list of what it emits.
\<close>

definition lattice_enumerator :: "int \<Rightarrow> mat2 list" where
  "lattice_enumerator N =
     sort_key (\<lambda>M. (\<bar>det2x2 M\<bar>, M))
       (remdups (map hermite (filter (det_in_bound N) (candidates N))))"

section \<open>Properties of the integer functions\<close>

subsection \<open>The remainder and get\_gcd\<close>

lemma smod_abs_less: "a \<noteq> 0 \<Longrightarrow> \<bar>b smod a\<bar> < \<bar>a\<bar>" for a b :: int
  using smod_int_range [where a = b and b = a] by auto

lemma gcd_smod: "gcd (b smod a) a = gcd a b" for a b :: int
proof -
  have "gcd (b smod a) a = gcd (\<bar>b\<bar> mod \<bar>a\<bar>) \<bar>a\<bar>"
    by (cases "b = 0"; cases "b < 0") (simp_all add: smod_int_alt_def)
  also have "\<dots> = gcd \<bar>a\<bar> \<bar>b\<bar>"
    using gcd_red_int [of "\<bar>b\<bar>" "\<bar>a\<bar>"] by (simp add: gcd.commute)
  also have "\<dots> = gcd a b"
    by simp
  finally show ?thesis .
qed

lemma rem_int_Inr: "rem_int b a = Inr r \<Longrightarrow> a \<noteq> 0 \<and> r = b smod a"
  by (simp add: rem_int_def split: if_splits)

lemma get_gcd_0: "get_gcd 0 b = Inr b"
  by (simp add: get_gcd.simps)

lemma get_gcd_abs: "get_gcd a b = Inr g \<Longrightarrow> \<bar>g\<bar> = gcd a b"
proof (induction a b rule: get_gcd.induct)
  case (1 a b)
  show ?case
  proof (cases "a = 0")
    case True
    with "1.prems" show ?thesis by (simp add: get_gcd.simps)
  next
    case False
    with "1.prems" obtain r where r: "rem_int b a = Inr r" and g: "get_gcd r a = Inr g"
      by (subst (asm) get_gcd.simps) (auto split: sum.splits)
    from "1.IH" [OF False r g] have "\<bar>g\<bar> = gcd r a" .
    with rem_int_Inr [OF r] show ?thesis by (simp add: gcd_smod)
  qed
qed

lemma smod_nonneg: "0 \<le> b \<Longrightarrow> 0 \<le> b smod a" for a b :: int
  by (cases "a = 0") (simp_all add: smod_int_alt_def sgn_if)

lemma get_gcd_nonneg: "0 \<le> a \<Longrightarrow> 0 \<le> b \<Longrightarrow> get_gcd a b = Inr (gcd a b)"
proof (induction a b rule: get_gcd.induct)
  case (1 a b)
  show ?case
  proof (cases "a = 0")
    case True
    with "1.prems" show ?thesis by (simp add: get_gcd.simps)
  next
    case False
    have nb: "b \<noteq> INT_MIN" using "1.prems" by (auto simp: INT_MIN_def)
    then have r: "rem_int b a = Inr (b smod a)"
      using False by (simp add: rem_int_def)
    have "get_gcd (b smod a) a = Inr (gcd (b smod a) a)"
      using "1.IH" [OF False r] "1.prems" by (simp add: smod_nonneg)
    then show ?thesis
      using False r by (subst get_gcd.simps) (simp add: gcd_smod)
  qed
qed

lemma smod_small: "\<bar>a\<bar> < \<bar>b\<bar> \<Longrightarrow> a smod b = a" for a b :: int
  by (auto simp add: smod_int_alt_def sgn_if)

lemma get_gcd_swap_less:
  assumes "\<bar>a\<bar> < \<bar>b\<bar>"
  shows "get_gcd b a = get_gcd a b"
proof -
  from assms have "b \<noteq> 0" and "\<not> (a = INT_MIN \<and> b = - 1)"
    by (auto simp: INT_MIN_def)
  then have "rem_int a b = Inr a"
    using assms by (simp add: rem_int_def smod_small)
  with \<open>b \<noteq> 0\<close> show ?thesis
    by (subst get_gcd.simps) simp
qed

lemma get_gcd_sym: "b \<noteq> - a \<or> a = 0 \<Longrightarrow> get_gcd a b = get_gcd b a"
proof -
  assume h: "b \<noteq> - a \<or> a = 0"
  consider "\<bar>a\<bar> < \<bar>b\<bar>" | "\<bar>b\<bar> < \<bar>a\<bar>" | "a = b" | "b = - a" "a \<noteq> b"
    by linarith
  then show ?thesis
  proof cases
    case 1 then show ?thesis by (rule get_gcd_swap_less [symmetric])
  next
    case 2 then show ?thesis by (rule get_gcd_swap_less)
  next
    case 3 then show ?thesis by simp
  next
    case 4 with h show ?thesis by simp
  qed
qed

lemma get_gcd_neg_self: "a \<noteq> 0 \<Longrightarrow> get_gcd a (- a) = Inr a"
proof -
  assume a: "a \<noteq> 0"
  have "\<not> (- a = INT_MIN \<and> a = - 1)" by (auto simp: INT_MIN_def)
  then have "rem_int (- a) a = Inr 0"
    using a by (simp add: rem_int_def smod_int_alt_def)
  then show ?thesis using a
    by (subst get_gcd.simps) (simp add: get_gcd.simps)
qed

lemma get_gcd_zero_right: "get_gcd a 0 = Inr a"
  by (subst get_gcd.simps) (simp add: rem_int_def INT_MIN_def get_gcd.simps)

lemma is_int_abs: "is_int x \<longleftrightarrow> - (2 ^ 31) \<le> x \<and> x < 2 ^ 31"
  by (auto simp: is_int_def INT_MIN_def INT_MAX_def)

lemma smod_is_int: "is_int a \<Longrightarrow> a \<noteq> 0 \<Longrightarrow> is_int (b smod a)"
  using smod_abs_less [of a b] by (auto simp: is_int_abs)

lemma get_gcd_is_int: "is_int a \<Longrightarrow> is_int b \<Longrightarrow> get_gcd a b = Inr g \<Longrightarrow> is_int g"
proof (induction a b rule: get_gcd.induct)
  case (1 a b)
  show ?case
  proof (cases "a = 0")
    case True
    with "1.prems" show ?thesis by (simp add: get_gcd.simps)
  next
    case False
    with "1.prems" obtain r where r: "rem_int b a = Inr r" and g: "get_gcd r a = Inr g"
      by (subst (asm) (2) get_gcd.simps) (auto split: sum.splits)
    have "is_int r"
      using rem_int_Inr [OF r] "1.prems"(1) by (simp add: smod_is_int)
    from "1.IH" [OF False r this "1.prems"(1) g] show ?thesis .
  qed
qed

lemma get_gcd_fault_iff:
  "is_int a \<Longrightarrow> is_int b \<Longrightarrow>
   get_gcd a b = Inl e \<longleftrightarrow>
     e = RemOverflow \<and> (a = - 1 \<and> b = INT_MIN \<or> a = INT_MIN \<and> b = - 1)"
proof (induction a b rule: get_gcd.induct)
  case (1 a b)
  show ?case
  proof (cases "a = 0")
    case True
    then show ?thesis by (simp add: get_gcd.simps INT_MIN_def)
  next
    case a: False
    show ?thesis
    proof (cases "b = INT_MIN \<and> a = - 1")
      case True
      then show ?thesis
        by (subst get_gcd.simps) (auto simp: rem_int_def INT_MIN_def)
    next
      case False
      with a have r: "rem_int b a = Inr (b smod a)"
        by (simp add: rem_int_def)
      have ri: "is_int (b smod a)"
        using a "1.prems"(1) by (simp add: smod_is_int)
      have step: "get_gcd a b = get_gcd (b smod a) a"
        using a r by (subst get_gcd.simps) simp
      have "b smod a \<noteq> INT_MIN \<or> a \<noteq> - 1"
        using smod_abs_less [OF a, of b] by (auto simp: INT_MIN_def)
      moreover have "b smod a = - 1 \<and> a = INT_MIN \<longleftrightarrow> a = INT_MIN \<and> b = - 1"
      proof (cases "a = INT_MIN")
        case False
        then show ?thesis by simp
      next
        case True
        show ?thesis
        proof (cases "b = INT_MIN")
          case True
          with \<open>a = INT_MIN\<close> show ?thesis
            by (simp add: INT_MIN_def smod_int_alt_def)
        next
          case False
          with "1.prems"(2) \<open>a = INT_MIN\<close> have "\<bar>b\<bar> < \<bar>a\<bar>"
            by (auto simp: is_int_abs INT_MIN_def)
          then show ?thesis by (auto simp add: smod_small)
        qed
      qed
      ultimately show ?thesis
        using "1.IH" [OF a r ri "1.prems"(1)] False step by auto
    qed
  qed
qed

lemma get_gcd_eq_0_iff: "get_gcd a b = Inr 0 \<longleftrightarrow> a = 0 \<and> b = 0"
proof
  assume "get_gcd a b = Inr 0"
  from get_gcd_abs [OF this] show "a = 0 \<and> b = 0" by simp
next
  assume "a = 0 \<and> b = 0"
  then show "get_gcd a b = Inr 0" by (simp add: get_gcd.simps)
qed

lemma find_gcd_loop_zero_iff:
  "0 \<le> i \<Longrightarrow> n \<le> int (length arr) \<Longrightarrow>
   find_gcd_loop arr n i result = Inr 0 \<longleftrightarrow>
     result = 0 \<and> (\<forall>k. nat i \<le> k \<and> k < nat n \<longrightarrow> arr ! k = 0)"
proof (induction arr n i result rule: find_gcd_loop.induct)
  case (1 arr n i result)
  show ?case
  proof (cases "i < n")
    case False
    then show ?thesis
      by (subst find_gcd_loop.simps) auto
  next
    case True
    with "1.prems" have inb: "0 \<le> i \<and> nat i < length arr" by auto
    have ks: "(\<forall>k. nat i \<le> k \<and> k < nat n \<longrightarrow> arr ! k = 0) \<longleftrightarrow>
              arr ! nat i = 0 \<and> (\<forall>k. nat (i + 1) \<le> k \<and> k < nat n \<longrightarrow> arr ! k = 0)"
    proof -
      have "nat i \<le> k \<longleftrightarrow> k = nat i \<or> nat (i + 1) \<le> k" for k
        using inb by auto
      moreover have "nat i < nat n" using True inb by auto
      ultimately show ?thesis by auto
    qed
    show ?thesis
    proof (cases "get_gcd (arr ! nat i) result")
      case (Inl e)
      then have "find_gcd_loop arr n i result = Inl e"
        using True inb by (subst find_gcd_loop.simps) simp
      moreover have "\<not> (arr ! nat i = 0 \<and> result = 0)"
        using Inl get_gcd_eq_0_iff [of "arr ! nat i" result] by auto
      ultimately show ?thesis using ks by auto
    next
      case (Inr r)
      show ?thesis
      proof (cases "r = 1")
        case True
        then have "find_gcd_loop arr n i result = Inr 1"
          using \<open>i < n\<close> inb Inr by (subst find_gcd_loop.simps) simp
        moreover have "\<not> (arr ! nat i = 0 \<and> result = 0)"
          using Inr True get_gcd_eq_0_iff [of "arr ! nat i" result] by auto
        ultimately show ?thesis using ks by auto
      next
        case False
        have step: "find_gcd_loop arr n i result = find_gcd_loop arr n (i + 1) r"
          using \<open>i < n\<close> inb Inr False by (subst find_gcd_loop.simps) simp
        have "find_gcd_loop arr n (i + 1) r = Inr 0 \<longleftrightarrow>
              r = 0 \<and> (\<forall>k. nat (i + 1) \<le> k \<and> k < nat n \<longrightarrow> arr ! k = 0)"
          using "1.IH" [OF \<open>i < n\<close> inb Inr False] "1.prems" by simp
        moreover have "r = 0 \<longleftrightarrow> arr ! nat i = 0 \<and> result = 0"
          using Inr get_gcd_eq_0_iff [of "arr ! nat i" result] by auto
        ultimately show ?thesis using step ks by auto
      qed
    qed
  qed
qed

lemma find_gcd_zero_iff:
  "arr \<noteq> [] \<Longrightarrow> 1 \<le> n \<Longrightarrow> n \<le> int (length arr) \<Longrightarrow>
   find_gcd arr n = Inr 0 \<longleftrightarrow> (\<forall>k < nat n. arr ! k = 0)"
proof -
  assume h: "arr \<noteq> []" "1 \<le> n" "n \<le> int (length arr)"
  have "(\<forall>k < nat n. arr ! k = 0) \<longleftrightarrow>
        arr ! 0 = 0 \<and> (\<forall>k. nat 1 \<le> k \<and> k < nat n \<longrightarrow> arr ! k = 0)"
  proof -
    have "0 < nat n" using h(2) by simp
    then show ?thesis
      by (metis less_one nat_one_as_int not_le_imp_less)
  qed
  then show ?thesis
    using h find_gcd_loop_zero_iff [of 1 n arr "arr ! 0"] by (simp add: find_gcd_def)
qed

lemma get_gcd_small:
  assumes "\<bar>x\<bar> \<le> INT_MAX" and "\<bar>r\<bar> \<le> INT_MAX"
  shows "\<exists>g. get_gcd x r = Inr g \<and> \<bar>g\<bar> \<le> INT_MAX"
proof -
  from assms have ix: "is_int x" and ir: "is_int r" and ne: "x \<noteq> INT_MIN" "r \<noteq> INT_MIN"
    by (auto simp: is_int_def INT_MIN_def INT_MAX_def)
  have "get_gcd x r \<noteq> Inl e" for e
    using get_gcd_fault_iff [OF ix ir, of e] ne by simp
  then obtain g where g: "get_gcd x r = Inr g"
    by (cases "get_gcd x r") auto
  have "\<bar>g\<bar> = gcd x r" by (rule get_gcd_abs [OF g])
  moreover have "gcd x r \<le> INT_MAX"
  proof (cases "x = 0")
    case True
    with assms show ?thesis by simp
  next
    case False
    then have "gcd \<bar>x\<bar> r \<le> \<bar>x\<bar>" by (intro gcd_le1_int) simp
    with assms show ?thesis by simp
  qed
  ultimately show ?thesis using g by simp
qed

lemma find_gcd_loop_returns:
  "0 \<le> i \<Longrightarrow> n \<le> int (length arr) \<Longrightarrow> \<bar>result\<bar> \<le> INT_MAX \<Longrightarrow>
   (\<forall>k. nat i \<le> k \<and> k < nat n \<longrightarrow> \<bar>arr ! k\<bar> \<le> INT_MAX) \<Longrightarrow>
   \<exists>r. find_gcd_loop arr n i result = Inr r"
proof (induction arr n i result rule: find_gcd_loop.induct)
  case (1 arr n i result)
  show ?case
  proof (cases "i < n")
    case False
    then show ?thesis by (subst find_gcd_loop.simps) simp
  next
    case True
    with "1.prems" have inb: "0 \<le> i \<and> nat i < length arr" by auto
    have "\<bar>arr ! nat i\<bar> \<le> INT_MAX"
      using "1.prems"(4) True inb by auto
    from get_gcd_small [OF this "1.prems"(3)]
    obtain g where g: "get_gcd (arr ! nat i) result = Inr g" and gs: "\<bar>g\<bar> \<le> INT_MAX"
      by blast
    show ?thesis
    proof (cases "g = 1")
      case True
      then show ?thesis
        using \<open>i < n\<close> inb g by (subst find_gcd_loop.simps) simp
    next
      case False
      have "\<forall>k. nat (i + 1) \<le> k \<and> k < nat n \<longrightarrow> \<bar>arr ! k\<bar> \<le> INT_MAX"
        using "1.prems"(4) inb by auto
      then have "\<exists>r. find_gcd_loop arr n (i + 1) g = Inr r"
        using "1.IH" [OF \<open>i < n\<close> inb g False] "1.prems"(1,2) gs by simp
      then show ?thesis
        using \<open>i < n\<close> inb g False by (subst find_gcd_loop.simps) simp
    qed
  qed
qed

lemma find_gcd_returns:
  assumes "arr \<noteq> []" "n \<le> int (length arr)" "\<forall>k < nat n. \<bar>arr ! k\<bar> \<le> INT_MAX" "1 \<le> n"
  shows "\<exists>r. find_gcd arr n = Inr r"
proof -
  have "\<bar>arr ! 0\<bar> \<le> INT_MAX" using assms(3,4) by simp
  then show ?thesis
    using assms find_gcd_loop_returns [of 1 n arr "arr ! 0"] by (simp add: find_gcd_def)
qed

lemma get_gcd_call_wf: "wf {(s', s). get_gcd_call s = Some s'}"
proof (rule wf_subset)
  show "wf (measure (\<lambda>(a, b). nat \<bar>a\<bar>))" by simp
  show "{(s', s). get_gcd_call s = Some s'} \<subseteq> measure (\<lambda>(a, b). nat \<bar>a\<bar>)"
    by (auto simp: get_gcd_call_def split: if_splits sum.splits dest!: rem_int_Inr
             intro: smod_abs_less)
qed

lemma get_gcd_call_step:
  "get_gcd_call (a, b) = Some (r, a') \<Longrightarrow>
     a \<noteq> 0 \<and> a' = a \<and> rem_int b a = Inr r \<and> \<bar>r\<bar> < \<bar>a\<bar> \<and> get_gcd a b = get_gcd r a'"
  by (subst get_gcd.simps)
     (auto simp: get_gcd_call_def split: if_splits sum.splits dest!: rem_int_Inr
             intro: smod_abs_less)

lemma get_gcd_call_None:
  "get_gcd_call (a, b) = None \<longleftrightarrow> a = 0 \<or> (a = - 1 \<and> b = INT_MIN)"
  by (auto simp: get_gcd_call_def rem_int_def split: if_splits sum.splits)

subsection \<open>The claims about get\_gcd and find\_gcd\<close>

text \<open>
  Claim C2, as the code has it: \<open>get_gcd a b\<close> and \<open>get_gcd b a\<close> are the same (both the same
  value, or both undefined for the pair \<open>-1\<close>, \<^verbatim>\<open>INT_MIN\<close>) for every pair of integers except
  \<open>b = -a \<noteq> 0\<close>, where \<open>get_gcd a (-a) = a\<close> and \<open>get_gcd (-a) a = -a\<close> differ in sign;
  \<open>get_gcd a 0 = a\<close> for every \<open>a\<close>, and \<open>get_gcd 0 0 = 0\<close>.
\<close>

theorem get_gcd_symmetric:
  "(b \<noteq> - a \<or> a = 0 \<longrightarrow> get_gcd a b = get_gcd b a) \<and>
   (a \<noteq> 0 \<longrightarrow> get_gcd a (- a) = Inr a \<and> get_gcd (- a) a = Inr (- a)) \<and>
   get_gcd a 0 = Inr a \<and> get_gcd 0 0 = Inr 0"
  using get_gcd_sym [of b a] get_gcd_neg_self [of a] get_gcd_neg_self [of "- a"]
    get_gcd_zero_right [of a] get_gcd_0 [of 0]
  by simp

theorem get_gcd_symmetric_witness:
  "(6::int) \<noteq> - 4 \<and> get_gcd 4 6 = get_gcd 6 4 \<and>
   (4::int) \<noteq> 0 \<and> get_gcd 4 (- 4) = Inr 4 \<and> get_gcd (- 4) 4 = Inr (- 4)"
  using get_gcd_symmetric [of 6 4] by simp

text \<open>
  The symmetry \<open>get_gcd a b = get_gcd b a\<close> does not hold for every pair of integers: the
  function returns the last non-zero remainder with its sign, and \<open>get_gcd 3 (-3) = 3\<close> while
  \<open>get_gcd (-3) 3 = -3\<close>.
\<close>

theorem get_gcd_symmetric_counterexample:
  "is_int 3 \<and> is_int (- 3) \<and> get_gcd 3 (- 3) = Inr 3 \<and> get_gcd (- 3) 3 = Inr (- 3)
   \<and> get_gcd 3 (- 3) \<noteq> get_gcd (- 3) 3"
  by code_simp

text \<open>
  Claim C6, as the code has it: \<open>get_gcd 0 b = b\<close>; whenever \<open>get_gcd a b\<close> returns \<open>g\<close>, \<open>g\<close>
  divides \<open>a\<close> and \<open>b\<close> and \<open>\<bar>g\<bar>\<close> is their greatest common divisor; for non-negative \<open>a\<close> and
  \<open>b\<close> the result is the greatest common divisor itself, which is the largest common divisor
  when \<open>a\<close> and \<open>b\<close> are not both zero; and the function returns a machine integer on every
  pair of machine integers other than \<open>-1\<close>, \<^verbatim>\<open>INT_MIN\<close> (in either order), where
  \<^verbatim>\<open>INT_MIN % -1\<close> is undefined.
\<close>

theorem get_gcd_euclid:
  "get_gcd 0 b = Inr b \<and>
   (get_gcd a b = Inr g \<longrightarrow> g dvd a \<and> g dvd b \<and> \<bar>g\<bar> = gcd a b) \<and>
   (0 \<le> a \<and> 0 \<le> b \<longrightarrow> get_gcd a b = Inr (gcd a b)) \<and>
   (0 \<le> a \<and> 0 \<le> b \<and> (a \<noteq> 0 \<or> b \<noteq> 0) \<and> d dvd a \<and> d dvd b \<longrightarrow> d \<le> gcd a b) \<and>
   (is_int a \<and> is_int b \<and> (a, b) \<noteq> (- 1, INT_MIN) \<and> (a, b) \<noteq> (INT_MIN, - 1) \<longrightarrow>
      (\<exists>r. get_gcd a b = Inr r \<and> is_int r))"
proof (intro conjI impI)
  show "get_gcd 0 b = Inr b" by (rule get_gcd_0)
next
  assume g: "get_gcd a b = Inr g"
  have "\<bar>g\<bar> = gcd a b" by (rule get_gcd_abs [OF g])
  then show "\<bar>g\<bar> = gcd a b" .
  have "\<bar>g\<bar> dvd a" "\<bar>g\<bar> dvd b" unfolding \<open>\<bar>g\<bar> = gcd a b\<close> by simp_all
  then show "g dvd a" "g dvd b" by simp_all
next
  assume "0 \<le> a \<and> 0 \<le> b"
  then show "get_gcd a b = Inr (gcd a b)" by (simp add: get_gcd_nonneg)
next
  assume h: "0 \<le> a \<and> 0 \<le> b \<and> (a \<noteq> 0 \<or> b \<noteq> 0) \<and> d dvd a \<and> d dvd b"
  then have "d dvd gcd a b" and "0 < gcd a b" by auto
  then show "d \<le> gcd a b" by (rule zdvd_imp_le)
next
  assume h: "is_int a \<and> is_int b \<and> (a, b) \<noteq> (- 1, INT_MIN) \<and> (a, b) \<noteq> (INT_MIN, - 1)"
  then have "get_gcd a b \<noteq> Inl e" for e
    using get_gcd_fault_iff [of a b e] by auto
  then obtain r where r: "get_gcd a b = Inr r"
    by (cases "get_gcd a b") auto
  with h get_gcd_is_int [of a b r] show "\<exists>r. get_gcd a b = Inr r \<and> is_int r" by auto
qed

theorem get_gcd_euclid_witness:
  "get_gcd 12 18 = Inr 6 \<and> (6::int) dvd 12 \<and> (6::int) dvd 18 \<and> \<bar>6::int\<bar> = gcd 12 18 \<and>
   (0::int) \<le> 12 \<and> (0::int) \<le> 18 \<and> (12::int) \<noteq> 0 \<and>
   (3::int) dvd 12 \<and> (3::int) dvd 18 \<and> (3::int) \<le> gcd 12 18 \<and>
   is_int 12 \<and> is_int 18 \<and> ((12::int), (18::int)) \<noteq> (- 1, INT_MIN) \<and>
   ((12::int), (18::int)) \<noteq> (INT_MIN, - 1) \<and> (\<exists>r. get_gcd 12 18 = Inr r \<and> is_int r)"
proof -
  have e: "get_gcd 12 18 = Inr 6" by code_simp
  have i: "is_int 12" "is_int 18" "INT_MIN \<noteq> 18" "INT_MIN \<noteq> 12" by code_simp+
  have d: "(3::int) dvd 12" "(3::int) dvd 18" by simp_all
  show ?thesis
    using get_gcd_euclid [of 18 12 6 3] e i d by simp
qed

text \<open>
  The result is not always the largest common divisor: \<open>get_gcd (-3) 3 = -3\<close>, and \<open>3\<close> is a
  larger integer that divides both arguments.
\<close>

theorem get_gcd_greatest_counterexample:
  "is_int (- 3) \<and> is_int 3 \<and> get_gcd (- 3) 3 = Inr (- 3) \<and>
   (3::int) dvd - 3 \<and> (3::int) dvd 3 \<and> (- 3::int) < 3"
  by code_simp

text \<open>
  Claim C3, as the code has it: for a non-empty \<open>arr\<close> and \<open>1 \<le> n \<le> length arr\<close>, \<open>find_gcd\<close>
  returns 0 exactly when the first \<open>n\<close> elements are all zero, so it never returns 0 when one
  of them is non-zero; and it does return a value when none of the first \<open>n\<close> elements is
  \<^verbatim>\<open>INT_MIN\<close>.
\<close>

theorem find_gcd_zero_only_when_all_zero:
  "arr \<noteq> [] \<Longrightarrow> 1 \<le> n \<Longrightarrow> n \<le> int (length arr) \<Longrightarrow>
   (find_gcd arr n = Inr 0 \<longleftrightarrow> (\<forall>k < nat n. arr ! k = 0)) \<and>
   ((\<forall>k < nat n. is_int (arr ! k) \<and> arr ! k \<noteq> INT_MIN) \<longrightarrow> (\<exists>r. find_gcd arr n = Inr r))"
proof
  assume h: "arr \<noteq> []" "1 \<le> n" "n \<le> int (length arr)"
  show "find_gcd arr n = Inr 0 \<longleftrightarrow> (\<forall>k < nat n. arr ! k = 0)"
    by (rule find_gcd_zero_iff [OF h])
  show "(\<forall>k < nat n. is_int (arr ! k) \<and> arr ! k \<noteq> INT_MIN) \<longrightarrow> (\<exists>r. find_gcd arr n = Inr r)"
  proof
    assume "\<forall>k < nat n. is_int (arr ! k) \<and> arr ! k \<noteq> INT_MIN"
    then have "\<forall>k < nat n. \<bar>arr ! k\<bar> \<le> INT_MAX"
      by (auto simp: is_int_def INT_MIN_def INT_MAX_def)
    then show "\<exists>r. find_gcd arr n = Inr r"
      using find_gcd_returns [of arr n] h by simp
  qed
qed

theorem find_gcd_zero_only_when_all_zero_witness:
  "[0, 6, 4] \<noteq> ([]::int list) \<and> (1::int) \<le> 3 \<and> (3::int) \<le> int (length [0, 6, 4::int]) \<and>
   [0, 6, 4 :: int] ! 1 \<noteq> 0 \<and> find_gcd [0, 6, 4] 3 \<noteq> Inr 0 \<and>
   is_int 0 \<and> is_int 6 \<and> is_int 4 \<and> (0::int) \<noteq> INT_MIN \<and> (6::int) \<noteq> INT_MIN \<and>
   (4::int) \<noteq> INT_MIN \<and> (\<exists>r. find_gcd [0, 6, 4] 3 = Inr r)"
proof -
  have i: "is_int 0" "is_int 6" "is_int 4" "(0::int) \<noteq> INT_MIN" "(6::int) \<noteq> INT_MIN"
    "(4::int) \<noteq> INT_MIN"
    by code_simp+
  have "k < 3 \<Longrightarrow> is_int ([0, 6, 4] ! k) \<and> [0, 6, 4] ! k \<noteq> INT_MIN" for k
    using i by (auto simp: nth_Cons split: nat.splits)
  then have p: "\<forall>k < nat 3. is_int ([0, 6, 4] ! k) \<and> [0, 6, 4] ! k \<noteq> INT_MIN"
    by simp
  have z: "\<not> (\<forall>k < nat 3. [0, 6, 4 :: int] ! k = 0)"
    by (auto intro: exI [of _ 1])
  have "[0, 6, 4] \<noteq> ([]::int list)" "(1::int) \<le> 3" "(3::int) \<le> int (length [0, 6, 4::int])"
    by simp_all
  from find_gcd_zero_only_when_all_zero [OF this] p z i show ?thesis
    by simp
qed

text \<open>
  A sequence with a non-zero element on which \<open>find_gcd\<close> has no result at all: on
  \<^verbatim>\<open>{INT_MIN, -1}\<close> the call \<open>get_gcd (-1) INT_MIN\<close> evaluates \<^verbatim>\<open>INT_MIN % -1\<close>.
\<close>

theorem find_gcd_nonzero_counterexample:
  "[INT_MIN, - 1] \<noteq> [] \<and> (1::int) \<le> 2 \<and> (2::int) \<le> int (length [INT_MIN, - 1]) \<and>
   is_int INT_MIN \<and> is_int (- 1) \<and> [INT_MIN, - 1] ! 1 \<noteq> 0 \<and>
   find_gcd [INT_MIN, - 1] 2 = Inl RemOverflow"
  by code_simp

text \<open>
  Claim C9: the recursive calls of \<open>get_gcd\<close> terminate on every pair of integers, negative
  ones included. The relation between a call and the recursive call it makes is well-founded;
  a call \<open>get_gcd a b\<close> that recurses has \<open>a \<noteq> 0\<close>, recurses on \<open>(b % a, a)\<close> and
  \<open>\<bar>b % a\<bar> < \<bar>a\<bar>\<close>; a call that does not recurse returns (\<open>a = 0\<close>) or is
  \<open>get_gcd (-1) INT_MIN\<close>, whose remainder is undefined. (That \<open>get_gcd\<close> is a total function
  of the logic rests on the same measure \<open>\<bar>a\<bar>\<close>.)
\<close>

theorem get_gcd_terminates:
  "wf {(s', s). get_gcd_call s = Some s'} \<and>
   (get_gcd_call (a, b) = Some (r, a') \<longrightarrow>
      a \<noteq> 0 \<and> a' = a \<and> rem_int b a = Inr r \<and> \<bar>r\<bar> < \<bar>a\<bar> \<and> get_gcd a b = get_gcd r a') \<and>
   (get_gcd_call (a, b) = None \<longleftrightarrow> a = 0 \<or> (a = - 1 \<and> b = INT_MIN))"
  using get_gcd_call_wf get_gcd_call_step [of a b r a'] get_gcd_call_None [of a b]
  by blast

theorem get_gcd_terminates_witness:
  "get_gcd_call (- 4, 7) = Some (3, - 4) \<and> \<bar>3::int\<bar> < \<bar>- 4\<bar> \<and> get_gcd (- 4) 7 = get_gcd 3 (- 4)"
proof -
  have "get_gcd_call (- 4, 7) = Some (3, - 4)" by code_simp
  then show ?thesis
    using get_gcd_terminates [of "- 4" 7 3 "- 4"] by simp
qed

section \<open>Properties of the vector and matrix functions\<close>

subsection \<open>rotate\_2d\_vector\<close>

lemma sin_4pi: "sin (4 * pi) = 0"
  using sin_periodic [of "2 * pi"] by simp

lemma cos_4pi: "cos (4 * pi) = 1"
  using cos_periodic [of "2 * pi"] by simp

lemma rotate_2d_vector_eq:
  "2 \<le> length vec \<Longrightarrow>
   rotate_2d_vector cv vec theta =
     Inr (standard_rotation (cv (vec ! 0)) (cv (vec ! 1)) (2 * theta))"
  by (simp add: rotate_2d_vector_def standard_rotation_def Let_def algebra_simps)

lemma list2: "length v = 2 \<Longrightarrow> v = [v ! 0, v ! 1]"
  by (cases v; cases "tl v") auto

lemma rotate_zero: "length v = 2 \<Longrightarrow> rotate_2d_vector cv v 0 = Inr (map cv v)"
  using list2 [of v] by (simp add: rotate_2d_vector_def Let_def) (metis list.simps(8,9))

lemma rotate_full: "length v = 2 \<Longrightarrow> rotate_2d_vector cv v 360 = Inr (map cv v)"
  using list2 [of v] by (simp add: rotate_2d_vector_def Let_def sin_4pi cos_4pi) (metis list.simps(8,9))

text \<open>
  Claim C1 says that \<open>rotate_2d_vector v theta\<close> is the rotation of \<open>v\<close> by \<open>theta\<close> degrees.
  The code converts the angle with \<^verbatim>\<open>theta * 2 * M_PI / 180.0\<close>, so it rotates by twice the
  angle (\<open>rotate_2d_vector_eq\<close>): the vector \<open>(1, 0)\<close> turned by 90 degrees comes out as
  \<open>(-1, 0)\<close>, where the rotation by 90 degrees gives \<open>(0, 1)\<close>.
\<close>

theorem rotate_2d_vector_quarter_turn:
  "rotate_2d_vector (\<lambda>x. x) [1, 0] 90 = Inr [- 1, 0] \<and> standard_rotation 1 0 90 = [0, 1]"
  by (simp add: rotate_2d_vector_def standard_rotation_def Let_def)

text \<open>
  Claim C5: for every vector \<open>v\<close> with two components, \<open>rotate_2d_vector v 0\<close> is \<open>v\<close> and
  \<open>rotate_2d_vector v 360\<close> is \<open>v\<close> (in the reals exactly; \<open>map cv v\<close> is \<open>v\<close> as a vector of
  \<^verbatim>\<open>double\<close>, and \<open>v\<close> itself in the \<^verbatim>\<open>double\<close> instance, where \<open>cv\<close> is the identity).
\<close>

theorem rotate_2d_vector_identity_and_full_turn:
  "length v = 2 \<Longrightarrow>
   rotate_2d_vector cv v 0 = Inr (map cv v) \<and> rotate_2d_vector cv v 360 = Inr (map cv v)"
  by (simp add: rotate_zero rotate_full)

theorem rotate_2d_vector_identity_and_full_turn_witness:
  "length [3, 4 :: real] = 2 \<and> rotate_2d_vector (\<lambda>x. x) [3, 4] 0 = Inr [3, 4] \<and>
   rotate_2d_vector (\<lambda>x. x) [3, 4] 360 = Inr [3, 4]"
  using rotate_2d_vector_identity_and_full_turn [of "[3, 4 :: real]" "\<lambda>x. x"] by simp

subsection \<open>vec1x3\_dot\_3x3\_matrix\<close>

lemma vec1x3_empty: "vec1x3_dot_3x3_matrix [] matrix = Inr [0, 0, 0]"
  by (simp add: vec1x3_dot_3x3_matrix_def vec1x3_dot_3x3_matrix_loop.simps numeral_3_eq_3)

lemma vec1x3_loop_done: "length a \<le> i \<Longrightarrow> vec1x3_dot_3x3_matrix_loop a matrix i b = Inr b"
  by (subst vec1x3_dot_3x3_matrix_loop.simps) simp

lemma vec1x3_loop_step:
  "i < length a \<Longrightarrow>
   vec1x3_dot_3x3_matrix_loop a matrix i b =
     (if 3 \<le> length a \<and> 3 \<le> length matrix \<and> i < length (matrix ! 0) \<and>
         i < length (matrix ! 1) \<and> i < length (matrix ! 2) \<and> i < length b
      then vec1x3_dot_3x3_matrix_loop a matrix (Suc i)
             (b[i := a ! 0 * matrix ! 0 ! i + a ! 1 * matrix ! 1 ! i + a ! 2 * matrix ! 2 ! i])
      else Inl OutOfBounds)"
  by (subst vec1x3_dot_3x3_matrix_loop.simps) simp

lemma vec1x3_product:
  assumes "length a = 3" and "at_least_3x3 matrix"
  shows "vec1x3_dot_3x3_matrix a matrix =
     Inr [a ! 0 * matrix ! 0 ! 0 + a ! 1 * matrix ! 1 ! 0 + a ! 2 * matrix ! 2 ! 0,
          a ! 0 * matrix ! 0 ! 1 + a ! 1 * matrix ! 1 ! 1 + a ! 2 * matrix ! 2 ! 1,
          a ! 0 * matrix ! 0 ! 2 + a ! 1 * matrix ! 1 ! 2 + a ! 2 * matrix ! 2 ! 2]"
  using assms
  by (auto simp add: vec1x3_dot_3x3_matrix_def at_least_3x3_def vec1x3_loop_step
        vec1x3_loop_done numeral_3_eq_3 numeral_2_eq_2)

lemma vec1x3_in_bounds_only:
  assumes "vec1x3_dot_3x3_matrix a matrix = Inr b"
  shows "a = [] \<or> (length a = 3 \<and> at_least_3x3 matrix)"
proof (cases "a = []")
  case True
  then show ?thesis by simp
next
  case False
  then have l0: "0 < length a" by simp
  let ?b0 = "replicate 3 0 :: 'a list"
  from assms have s0: "vec1x3_dot_3x3_matrix_loop a matrix 0 ?b0 = Inr b"
    by (simp add: vec1x3_dot_3x3_matrix_def)
  from s0 l0 have c0: "3 \<le> length a" "3 \<le> length matrix" "0 < length (matrix ! 0)"
      "0 < length (matrix ! 1)" "0 < length (matrix ! 2)"
    by (auto simp: vec1x3_loop_step split: if_splits)
  then obtain b1 where s1: "vec1x3_dot_3x3_matrix_loop a matrix (Suc 0) b1 = Inr b"
      and lb1: "length b1 = 3"
    using s0 l0 by (auto simp: vec1x3_loop_step split: if_splits)
  from c0 have l1: "Suc 0 < length a" by simp
  from s1 l1 have c1: "Suc 0 < length (matrix ! 0)" "Suc 0 < length (matrix ! 1)"
      "Suc 0 < length (matrix ! 2)"
    by (auto simp: vec1x3_loop_step split: if_splits)
  obtain b2 where s2: "vec1x3_dot_3x3_matrix_loop a matrix (Suc (Suc 0)) b2 = Inr b"
      and lb2: "length b2 = 3"
    using s1 l1 lb1 by (auto simp: vec1x3_loop_step split: if_splits)
  from c0 have l2: "Suc (Suc 0) < length a" by simp
  from s2 l2 have c2: "Suc (Suc 0) < length (matrix ! 0)" "Suc (Suc 0) < length (matrix ! 1)"
      "Suc (Suc 0) < length (matrix ! 2)"
    by (auto simp: vec1x3_loop_step split: if_splits)
  obtain b3 where s3: "vec1x3_dot_3x3_matrix_loop a matrix (Suc (Suc (Suc 0))) b3 = Inr b"
      and lb3: "length b3 = 3"
    using s2 l2 lb2 by (auto simp: vec1x3_loop_step split: if_splits)
  have "\<not> Suc (Suc (Suc 0)) < length a"
  proof
    assume "Suc (Suc (Suc 0)) < length a"
    with s3 lb3 show False
      by (auto simp: vec1x3_loop_step split: if_splits)
  qed
  with c0 c2 show ?thesis by (auto simp: at_least_3x3_def)
qed

lemma vec1x3_loop_only_fault:
  "vec1x3_dot_3x3_matrix_loop a matrix i b = Inl e \<Longrightarrow> e = OutOfBounds"
proof (induction a matrix i b rule: vec1x3_dot_3x3_matrix_loop.induct)
  case (1 a matrix i b)
  from "1.prems" show ?case
    by (subst (asm) vec1x3_dot_3x3_matrix_loop.simps) (auto split: if_splits dest: "1.IH")
qed

lemma vec1x3_only_fault: "vec1x3_dot_3x3_matrix a matrix = Inl e \<Longrightarrow> e = OutOfBounds"
  unfolding vec1x3_dot_3x3_matrix_def by (rule vec1x3_loop_only_fault)

text \<open>
  Claim C10, as the code has it: \<open>vec1x3_dot_3x3_matrix\<close> stays within the bounds of its vectors
  exactly when \<open>a\<close> is empty (the loop body never runs and the result is \<open>(0, 0, 0)\<close>) or \<open>a\<close> has
  exactly three components and the matrix has at least three rows, the first three of them
  with at least three entries; out of bounds is its only fault; and for such an \<open>a\<close> of length
  3 the result is the product of the row vector with the matrix,
  \<open>b[i] = a[0] * matrix[0][i] + a[1] * matrix[1][i] + a[2] * matrix[2][i]\<close>.
\<close>

theorem vec1x3_dot_3x3_matrix_in_bounds:
  "((\<exists>b. vec1x3_dot_3x3_matrix a matrix = Inr b) \<longleftrightarrow>
      a = [] \<or> (length a = 3 \<and> at_least_3x3 matrix)) \<and>
   (vec1x3_dot_3x3_matrix a matrix = Inl e \<longrightarrow> e = OutOfBounds) \<and>
   (a = [] \<longrightarrow> vec1x3_dot_3x3_matrix a matrix = Inr [0, 0, 0]) \<and>
   (length a = 3 \<and> at_least_3x3 matrix \<longrightarrow>
      vec1x3_dot_3x3_matrix a matrix =
        Inr [a ! 0 * matrix ! 0 ! 0 + a ! 1 * matrix ! 1 ! 0 + a ! 2 * matrix ! 2 ! 0,
             a ! 0 * matrix ! 0 ! 1 + a ! 1 * matrix ! 1 ! 1 + a ! 2 * matrix ! 2 ! 1,
             a ! 0 * matrix ! 0 ! 2 + a ! 1 * matrix ! 1 ! 2 + a ! 2 * matrix ! 2 ! 2])"
proof (intro conjI impI)
  show "(\<exists>b. vec1x3_dot_3x3_matrix a matrix = Inr b) \<longleftrightarrow>
      a = [] \<or> (length a = 3 \<and> at_least_3x3 matrix)"
    using vec1x3_in_bounds_only [of a matrix] vec1x3_empty [of matrix]
      vec1x3_product [of a matrix]
    by auto
next
  assume "vec1x3_dot_3x3_matrix a matrix = Inl e"
  then show "e = OutOfBounds" by (rule vec1x3_only_fault)
next
  assume "a = []"
  then show "vec1x3_dot_3x3_matrix a matrix = Inr [0, 0, 0]" by (simp add: vec1x3_empty)
next
  assume "length a = 3 \<and> at_least_3x3 matrix"
  then show "vec1x3_dot_3x3_matrix a matrix =
        Inr [a ! 0 * matrix ! 0 ! 0 + a ! 1 * matrix ! 1 ! 0 + a ! 2 * matrix ! 2 ! 0,
             a ! 0 * matrix ! 0 ! 1 + a ! 1 * matrix ! 1 ! 1 + a ! 2 * matrix ! 2 ! 1,
             a ! 0 * matrix ! 0 ! 2 + a ! 1 * matrix ! 1 ! 2 + a ! 2 * matrix ! 2 ! 2]"
    by (simp add: vec1x3_product)
qed

theorem vec1x3_dot_3x3_matrix_in_bounds_witness:
  "length [1, 2, 3 :: int] = 3 \<and> at_least_3x3 [[1, 0, 2], [0, 1, 0], [0, 0, 1 :: int]] \<and>
   vec1x3_dot_3x3_matrix [1, 2, 3] [[1, 0, 2], [0, 1, 0], [0, 0, 1 :: int]] = Inr [1, 2, 5] \<and>
   vec1x3_dot_3x3_matrix [] [[1 :: int]] = Inr [0, 0, 0] \<and>
   vec1x3_dot_3x3_matrix [1, 2 :: int] [[1, 0, 2], [0, 1, 0], [0, 0, 1]] = Inl OutOfBounds"
proof -
  have "at_least_3x3 [[1, 0, 2], [0, 1, 0], [0, 0, 1 :: int]]"
    by (simp add: at_least_3x3_def)
  moreover have "vec1x3_dot_3x3_matrix [1, 2 :: int] [[1, 0, 2], [0, 1, 0], [0, 0, 1]]
      = Inl OutOfBounds"
    by code_simp
  ultimately show ?thesis
    using vec1x3_dot_3x3_matrix_in_bounds [of "[1, 2, 3 :: int]" "[[1, 0, 2], [0, 1, 0], [0, 0, 1]]"]
      vec1x3_dot_3x3_matrix_in_bounds [of "[] :: int list" "[[1]]"]
    by simp
qed

text \<open>
  The loop runs \<^verbatim>\<open>a.size()\<close> times, so on an empty \<open>a\<close> nothing is read: the call is within bounds
  although \<open>a\<close> does not have length 3 and the matrix has no row.
\<close>

theorem vec1x3_dot_3x3_matrix_empty_counterexample:
  "vec1x3_dot_3x3_matrix ([] :: int list) [] = Inr [0, 0, 0] \<and> length ([] :: int list) \<noteq> 3 \<and>
   \<not> at_least_3x3 ([] :: int list list)"
  by (simp add: vec1x3_empty at_least_3x3_def)

subsection \<open>Determinant and inverse\<close>

lemma upt_0_3: "[0..<3] = [0, 1, 2]"
  by (simp add: upt_rec)

lemma at_least_3x3_entry:
  assumes "at_least_3x3 mat" and "i < 3" and "j < 3"
  shows "map (map cv) mat ! i ! j = cv (mat ! i ! j)"
proof -
  from assms(2) have "i = 0 \<or> i = 1 \<or> i = 2" by auto
  with assms(1) have "i < length mat" and "3 \<le> length (mat ! i)"
    by (auto simp: at_least_3x3_def)
  with assms(3) show ?thesis by simp
qed

lemma det3_map:
  assumes "at_least_3x3 mat"
  shows "det3 (map (map cv) mat) =
     cv (mat ! 0 ! 0) * cv (mat ! 1 ! 1) * cv (mat ! 2 ! 2)
     + cv (mat ! 0 ! 1) * cv (mat ! 1 ! 2) * cv (mat ! 2 ! 0)
     + cv (mat ! 0 ! 2) * cv (mat ! 1 ! 0) * cv (mat ! 2 ! 1)
     - cv (mat ! 0 ! 2) * cv (mat ! 1 ! 1) * cv (mat ! 2 ! 0)
     - cv (mat ! 0 ! 1) * cv (mat ! 1 ! 0) * cv (mat ! 2 ! 2)
     - cv (mat ! 0 ! 0) * cv (mat ! 1 ! 2) * cv (mat ! 2 ! 1)"
  unfolding det3_def by (simp add: at_least_3x3_entry [OF assms])

lemma determinant_hom:
  assumes m: "\<And>x y. cv (x * y) = cv x * cv y" and d: "\<And>x y. cv (x - y) = cv x - cv y"
    and b: "at_least_3x3 mat"
  shows "get_3x3_matrix_determinant cv mat = Inr (det3 (map (map cv) mat))"
  unfolding det3_map [OF b] using b
  by (simp add: get_3x3_matrix_determinant_def upt_0_3 m d algebra_simps
        numeral_2_eq_2 [symmetric])

lemma determinant_real: "at_least_3x3 mat \<Longrightarrow> get_3x3_matrix_determinant (\<lambda>x. x) mat = Inr (det3 mat)"
  using determinant_hom [of "\<lambda>x::real. x" mat] by simp

lemma det3_of_int: 
  "at_least_3x3 mat \<Longrightarrow> det3 (map (map real_of_int) mat) = real_of_int (det3 mat)"
  by (simp add: det3_map) (simp add: det3_def)

lemma determinant_int:
  "at_least_3x3 mat \<Longrightarrow> get_3x3_matrix_determinant real_of_int mat = Inr (real_of_int (det3 mat))"
  using determinant_hom [of real_of_int mat] by (simp add: det3_of_int)

lemma is_3x3_explicit:
  assumes "is_3x3 mat"
  obtains a b c d e f g h k where "mat = [[a, b, c], [d, e, f], [g, h, k]]"
proof -
  have l3: "\<exists>x y z. xs = [x, y, z]" if "length xs = 3" for xs :: "'b list"
    using that by (auto simp: numeral_3_eq_3 length_Suc_conv)
  from assms obtain r0 r1 r2 where mat: "mat = [r0, r1, r2]"
    using l3 [of mat] by (auto simp: is_3x3_def)
  with assms have "length r0 = 3" "length r1 = 3" "length r2 = 3"
    by (simp_all add: is_3x3_def)
  then obtain a b c d e f g h k where "r0 = [a, b, c]" "r1 = [d, e, f]" "r2 = [g, h, k]"
    using l3 [of r0] l3 [of r1] l3 [of r2] by auto
  with mat that show thesis by simp
qed

lemma is_3x3_at_least: "is_3x3 mat \<Longrightarrow> at_least_3x3 mat"
  by (erule is_3x3_explicit) (simp add: at_least_3x3_def)

lemma adjugate_explicit:
  "adjugate [[a, b, c], [d, e, f], [g, h, k]] =
     [[e * k - f * h, h * c - k * b, b * f - c * e],
      [f * g - d * k, k * a - g * c, c * d - a * f],
      [d * h - e * g, g * b - h * a, a * e - b * d]]"
  by (simp add: adjugate_def cofactor_def det2_def without_def upt_0_3 mult.commute)

lemma replicate_3: "replicate 3 x = [x, x, x]"
  by (simp add: numeral_3_eq_3)

lemma invert_loops_explicit:
  "fold (\<lambda>i minv.
      fold (\<lambda>j minv.
        minv[i := (minv ! i)[j :=
          cv (mat ! ((j + 1) mod 3) ! ((i + 1) mod 3) * mat ! ((j + 2) mod 3) ! ((i + 2) mod 3)
              - mat ! ((j + 1) mod 3) ! ((i + 2) mod 3) * mat ! ((j + 2) mod 3) ! ((i + 1) mod 3))
          / D]])
      [0..<3] minv)
    [0..<3] (replicate 3 (replicate 3 0)) =
   [[cv (mat ! 1 ! 1 * mat ! 2 ! 2 - mat ! 1 ! 2 * mat ! 2 ! 1) / D,
     cv (mat ! 2 ! 1 * mat ! 0 ! 2 - mat ! 2 ! 2 * mat ! 0 ! 1) / D,
     cv (mat ! 0 ! 1 * mat ! 1 ! 2 - mat ! 0 ! 2 * mat ! 1 ! 1) / D],
    [cv (mat ! 1 ! 2 * mat ! 2 ! 0 - mat ! 1 ! 0 * mat ! 2 ! 2) / D,
     cv (mat ! 2 ! 2 * mat ! 0 ! 0 - mat ! 2 ! 0 * mat ! 0 ! 2) / D,
     cv (mat ! 0 ! 2 * mat ! 1 ! 0 - mat ! 0 ! 0 * mat ! 1 ! 2) / D],
    [cv (mat ! 1 ! 0 * mat ! 2 ! 1 - mat ! 1 ! 1 * mat ! 2 ! 0) / D,
     cv (mat ! 2 ! 0 * mat ! 0 ! 1 - mat ! 2 ! 1 * mat ! 0 ! 0) / D,
     cv (mat ! 0 ! 0 * mat ! 1 ! 1 - mat ! 0 ! 1 * mat ! 1 ! 0) / D]]"
  by (simp add: upt_0_3 replicate_3 numeral_2_eq_2 [symmetric])

lemma invert_hom:
  assumes m: "\<And>x y. cv (x * y) = cv x * cv y" and d: "\<And>x y. cv (x - y) = cv x - cv y"
    and b: "is_3x3 mat" and nz: "det3 (map (map cv) mat) \<noteq> 0"
  shows "invert_3x3_matrix cv mat =
     Inr (map (map (\<lambda>x. x / det3 (map (map cv) mat))) (adjugate (map (map cv) mat)))"
proof -
  have dt: "get_3x3_matrix_determinant cv mat = Inr (det3 (map (map cv) mat))"
    by (rule determinant_hom [OF m d is_3x3_at_least [OF b]])
  from b obtain a b c d e f g h k where mat: "mat = [[a, b, c], [d, e, f], [g, h, k]]"
    by (rule is_3x3_explicit)
  have adj: "map (map (\<lambda>x. x / D)) (adjugate (map (map cv) mat)) =
     [[cv (mat ! 1 ! 1 * mat ! 2 ! 2 - mat ! 1 ! 2 * mat ! 2 ! 1) / D,
       cv (mat ! 2 ! 1 * mat ! 0 ! 2 - mat ! 2 ! 2 * mat ! 0 ! 1) / D,
       cv (mat ! 0 ! 1 * mat ! 1 ! 2 - mat ! 0 ! 2 * mat ! 1 ! 1) / D],
      [cv (mat ! 1 ! 2 * mat ! 2 ! 0 - mat ! 1 ! 0 * mat ! 2 ! 2) / D,
       cv (mat ! 2 ! 2 * mat ! 0 ! 0 - mat ! 2 ! 0 * mat ! 0 ! 2) / D,
       cv (mat ! 0 ! 2 * mat ! 1 ! 0 - mat ! 0 ! 0 * mat ! 1 ! 2) / D],
      [cv (mat ! 1 ! 0 * mat ! 2 ! 1 - mat ! 1 ! 1 * mat ! 2 ! 0) / D,
       cv (mat ! 2 ! 0 * mat ! 0 ! 1 - mat ! 2 ! 1 * mat ! 0 ! 0) / D,
       cv (mat ! 0 ! 0 * mat ! 1 ! 1 - mat ! 0 ! 1 * mat ! 1 ! 0) / D]]" for D
    by (simp add: mat adjugate_explicit m d)
  show ?thesis
    unfolding invert_3x3_matrix_def dt using nz
    by (simp only: sum.case if_False invert_loops_explicit adj)
qed

lemma inverse_times_matrix:
  fixes a :: "'a::field"
  assumes "det3 [[a, b, c], [d, e, f], [g, h, k]] \<noteq> 0"
  shows "mat_mul3 (map (map (\<lambda>x. x / det3 [[a, b, c], [d, e, f], [g, h, k]]))
                     (adjugate [[a, b, c], [d, e, f], [g, h, k]]))
           [[a, b, c], [d, e, f], [g, h, k]] = identity3"
proof -
  define D where "D = det3 [[a, b, c], [d, e, f], [g, h, k]]"
  have D: "D = a * e * k + b * f * g + c * d * h - c * e * g - b * d * k - a * f * h"
    by (simp add: D_def det3_def)
  have one: "x * p / D + y * q / D + z * r / D = 1" if "x * p + y * q + z * r = D" for x y z p q r
  proof -
    have "x * p / D + y * q / D + z * r / D = (x * p + y * q + z * r) / D"
      by (simp add: add_divide_distrib)
    with that assms show ?thesis by (simp add: D_def)
  qed
  have zero: "x * p / D + y * q / D + z * r / D = 0" if "x * p + y * q + z * r = 0" for x y z p q r
  proof -
    have "x * p / D + y * q / D + z * r / D = (x * p + y * q + z * r) / D"
      by (simp add: add_divide_distrib)
    with that show ?thesis by simp
  qed
  show ?thesis
    unfolding D_def [symmetric] adjugate_explicit
    apply (simp add: mat_mul3_def identity3_def upt_0_3)
    apply (intro conjI one zero)
    apply (simp_all add: D algebra_simps)
    done
qed

lemma adjugate_of_int:
  "is_3x3 mat \<Longrightarrow> adjugate (map (map real_of_int) mat) = map (map real_of_int) (adjugate mat)"
  by (erule is_3x3_explicit) (simp add: adjugate_explicit)

lemma inverse_times_matrix_3x3:
  fixes mat :: "'a::field list list"
  assumes "is_3x3 mat" and "det3 mat \<noteq> 0"
  shows "mat_mul3 (map (map (\<lambda>x. x / det3 mat)) (adjugate mat)) mat = identity3"
  using assms by (elim is_3x3_explicit) (simp add: inverse_times_matrix)

lemma is_3x3_map: "is_3x3 mat \<Longrightarrow> is_3x3 (map (map f) mat)"
  by (simp add: is_3x3_def list_all_iff)

lemma invert_zero:
  assumes m: "\<And>x y. cv (x * y) = cv x * cv y" and d: "\<And>x y. cv (x - y) = cv x - cv y"
    and b: "at_least_3x3 mat" and z: "det3 (map (map cv) mat) = 0"
  shows "invert_3x3_matrix cv mat = Inl DivByZero"
  using z by (simp add: invert_3x3_matrix_def determinant_hom [OF m d b])

lemma sint_mult_no_overflow:
  fixes a b :: "32 word"
  assumes "is_int (sint a * sint b)"
  shows "sint (a * b) = sint a * sint b"
proof -
  have "- (2 ^ 31) \<le> sint a * sint b" "sint a * sint b < 2 ^ 31"
    using assms by (simp_all add: is_int_abs)
  then have "signed_take_bit 31 (sint a * sint b) = sint a * sint b"
    by (simp add: signed_take_bit_int_eq_self_iff)
  then show ?thesis by (simp add: sint_word_ariths)
qed

lemma sint_diff_no_overflow:
  fixes a b :: "32 word"
  assumes "is_int (sint a - sint b)"
  shows "sint (a - b) = sint a - sint b"
proof -
  have "- (2 ^ 31) \<le> sint a - sint b" "sint a - sint b < 2 ^ 31"
    using assms by (simp_all add: is_int_abs)
  then have "signed_take_bit 31 (sint a - sint b) = sint a - sint b"
    by (simp add: signed_take_bit_int_eq_self_iff)
  then show ?thesis by (simp add: sint_word_ariths)
qed

lemma sint_cofactor_no_overflow:
  fixes b c d e :: "32 word"
  assumes "is_int (sint b * sint c)" and "is_int (sint d * sint e)"
    and "is_int (sint b * sint c - sint d * sint e)"
  shows "sint (b * c - d * e) = sint b * sint c - sint d * sint e"
  using assms by (simp add: sint_diff_no_overflow sint_mult_no_overflow)

lemma sint_det_term_no_overflow:
  fixes a b c d e :: "32 word"
  assumes "is_int (sint b * sint c)" and "is_int (sint d * sint e)"
    and "is_int (sint b * sint c - sint d * sint e)"
    and "is_int (sint a * (sint b * sint c - sint d * sint e))"
  shows "sint (a * (b * c - d * e)) = sint a * (sint b * sint c - sint d * sint e)"
  using assms by (simp add: sint_mult_no_overflow sint_cofactor_no_overflow)

lemma at_least_3x3_map:
  assumes "at_least_3x3 mat"
  shows "at_least_3x3 (map (map f) mat)"
proof -
  from assms have "0 < length mat" "1 < length mat" "2 < length mat"
    by (auto simp: at_least_3x3_def)
  then have "map (map f) mat ! 0 = map f (mat ! 0)" "map (map f) mat ! 1 = map f (mat ! 1)"
    "map (map f) mat ! 2 = map f (mat ! 2)"
    by (simp_all only: nth_map)
  with assms show ?thesis by (simp add: at_least_3x3_def)
qed

lemma determinant_word:
  fixes imat :: "32 word list list"
  assumes b: "at_least_3x3 imat" and n: "det_no_overflow (map (map sint) imat)"
  shows "get_3x3_matrix_determinant int_to_double imat =
         get_3x3_matrix_determinant real_of_int (map (map sint) imat)"
proof -
  note e = at_least_3x3_entry [OF b, of _ _ sint]
  have t: "int_to_double (imat ! 0 ! i *
              (imat ! 1 ! ((i + 1) mod 3) * imat ! 2 ! ((i + 2) mod 3)
               - imat ! 1 ! ((i + 2) mod 3) * imat ! 2 ! ((i + 1) mod 3))) =
           real_of_int (map (map sint) imat ! 0 ! i *
              (map (map sint) imat ! 1 ! ((i + 1) mod 3) * map (map sint) imat ! 2 ! ((i + 2) mod 3)
               - map (map sint) imat ! 1 ! ((i + 2) mod 3) * map (map sint) imat ! 2 ! ((i + 1) mod 3)))"
    if "i < 3" for i
  proof -
    from n that have
      "let p = map (map sint) imat ! 1 ! ((i + 1) mod 3) * map (map sint) imat ! 2 ! ((i + 2) mod 3);
           q = map (map sint) imat ! 1 ! ((i + 2) mod 3) * map (map sint) imat ! 2 ! ((i + 1) mod 3)
       in is_int p \<and> is_int q \<and> is_int (p - q) \<and> is_int (map (map sint) imat ! 0 ! i * (p - q))"
      by (simp add: det_no_overflow_def list_all_iff)
    with that show ?thesis
      by (simp add: Let_def e int_to_double_def sint_det_term_no_overflow)
  qed
  have "fold (\<lambda>i determinant. determinant + int_to_double (imat ! 0 ! i *
              (imat ! 1 ! ((i + 1) mod 3) * imat ! 2 ! ((i + 2) mod 3)
               - imat ! 1 ! ((i + 2) mod 3) * imat ! 2 ! ((i + 1) mod 3)))) [0..<3] 0 =
        fold (\<lambda>i determinant. determinant + real_of_int (map (map sint) imat ! 0 ! i *
              (map (map sint) imat ! 1 ! ((i + 1) mod 3) * map (map sint) imat ! 2 ! ((i + 2) mod 3)
               - map (map sint) imat ! 1 ! ((i + 2) mod 3) * map (map sint) imat ! 2 ! ((i + 1) mod 3))))
          [0..<3] 0"
  proof (rule fold_cong [OF refl refl])
    fix i :: nat
    assume "i \<in> set [0..<3]"
    then have "i < 3" by simp
    then show "(\<lambda>determinant. determinant + int_to_double (imat ! 0 ! i *
              (imat ! 1 ! ((i + 1) mod 3) * imat ! 2 ! ((i + 2) mod 3)
               - imat ! 1 ! ((i + 2) mod 3) * imat ! 2 ! ((i + 1) mod 3)))) =
        (\<lambda>determinant. determinant + real_of_int (map (map sint) imat ! 0 ! i *
              (map (map sint) imat ! 1 ! ((i + 1) mod 3) * map (map sint) imat ! 2 ! ((i + 2) mod 3)
               - map (map sint) imat ! 1 ! ((i + 2) mod 3) * map (map sint) imat ! 2 ! ((i + 1) mod 3))))"
      by (simp only: t)
  qed
  then show ?thesis
    using b at_least_3x3_map [OF b, of sint]
    by (simp only: get_3x3_matrix_determinant_def if_True)
qed

lemma invert_word:
  fixes imat :: "32 word list list"
  assumes b: "at_least_3x3 imat" and n: "det_no_overflow (map (map sint) imat)"
    and v: "inv_no_overflow (map (map sint) imat)"
  shows "invert_3x3_matrix int_to_double imat =
         invert_3x3_matrix real_of_int (map (map sint) imat)"
proof -
  note e = at_least_3x3_entry [OF b, of _ _ sint]
  have t: "int_to_double
             (imat ! ((j + 1) mod 3) ! ((i + 1) mod 3) * imat ! ((j + 2) mod 3) ! ((i + 2) mod 3)
              - imat ! ((j + 1) mod 3) ! ((i + 2) mod 3) * imat ! ((j + 2) mod 3) ! ((i + 1) mod 3)) =
           real_of_int
             (map (map sint) imat ! ((j + 1) mod 3) ! ((i + 1) mod 3)
                * map (map sint) imat ! ((j + 2) mod 3) ! ((i + 2) mod 3)
              - map (map sint) imat ! ((j + 1) mod 3) ! ((i + 2) mod 3)
                * map (map sint) imat ! ((j + 2) mod 3) ! ((i + 1) mod 3))"
    if "i < 3" "j < 3" for i j
  proof -
    from v that have
      "let p = map (map sint) imat ! ((j + 1) mod 3) ! ((i + 1) mod 3)
                 * map (map sint) imat ! ((j + 2) mod 3) ! ((i + 2) mod 3);
           q = map (map sint) imat ! ((j + 1) mod 3) ! ((i + 2) mod 3)
                 * map (map sint) imat ! ((j + 2) mod 3) ! ((i + 1) mod 3)
       in is_int p \<and> is_int q \<and> is_int (p - q)"
      by (simp add: inv_no_overflow_def list_all_iff)
    with that show ?thesis
      by (simp add: Let_def e int_to_double_def sint_cofactor_no_overflow)
  qed
  have l: "fold (\<lambda>i minv. fold (\<lambda>j minv. minv[i := (minv ! i)[j := f i j / D]]) [0..<3] minv)
             [0..<3] z =
           fold (\<lambda>i minv. fold (\<lambda>j minv. minv[i := (minv ! i)[j := g i j / D]]) [0..<3] minv)
             [0..<3] z"
    if fg: "\<And>i j. i < 3 \<Longrightarrow> j < 3 \<Longrightarrow> f i j = g i j"
    for f g :: "nat \<Rightarrow> nat \<Rightarrow> real" and z D
  proof (rule fold_cong [OF refl refl])
    fix i :: nat
    assume "i \<in> set [0..<3]"
    then have i: "i < 3" by simp
    show "(\<lambda>minv. fold (\<lambda>j minv. minv[i := (minv ! i)[j := f i j / D]]) [0..<3] minv) =
          (\<lambda>minv. fold (\<lambda>j minv. minv[i := (minv ! i)[j := g i j / D]]) [0..<3] minv)"
    proof (rule ext, rule fold_cong [OF refl refl])
      fix j :: nat
      assume "j \<in> set [0..<3]"
      then have "j < 3" by simp
      with i show "(\<lambda>minv. minv[i := (minv ! i)[j := f i j / D]]) =
                   (\<lambda>minv. minv[i := (minv ! i)[j := g i j / D]])"
        by (simp only: fg)
    qed
  qed
  have eq: "fold (\<lambda>i minv. fold (\<lambda>j minv. minv[i := (minv ! i)[j :=
              int_to_double
                (imat ! ((j + 1) mod 3) ! ((i + 1) mod 3) * imat ! ((j + 2) mod 3) ! ((i + 2) mod 3)
                 - imat ! ((j + 1) mod 3) ! ((i + 2) mod 3) * imat ! ((j + 2) mod 3) ! ((i + 1) mod 3))
              / D]]) [0..<3] minv) [0..<3] z =
            fold (\<lambda>i minv. fold (\<lambda>j minv. minv[i := (minv ! i)[j :=
              real_of_int
                (map (map sint) imat ! ((j + 1) mod 3) ! ((i + 1) mod 3)
                   * map (map sint) imat ! ((j + 2) mod 3) ! ((i + 2) mod 3)
                 - map (map sint) imat ! ((j + 1) mod 3) ! ((i + 2) mod 3)
                   * map (map sint) imat ! ((j + 2) mod 3) ! ((i + 1) mod 3))
              / D]]) [0..<3] minv) [0..<3] z" for D z
    by (rule l) (rule t)
  show ?thesis
    unfolding invert_3x3_matrix_def determinant_word [OF b n]
    by (simp only: eq)
qed

lemma abs_mult_bound:
  fixes x y :: int
  assumes "\<bar>x\<bar> \<le> A" and "\<bar>y\<bar> \<le> B"
  shows "\<bar>x * y\<bar> \<le> A * B"
proof -
  have "\<bar>x\<bar> * \<bar>y\<bar> \<le> A * B"
    using assms by (intro mult_mono) auto
  then show ?thesis by (simp add: abs_mult)
qed

lemma small_products_in_range:
  fixes a x y z w :: int
  assumes "\<bar>a\<bar> \<le> 1023" "\<bar>x\<bar> \<le> 1023" "\<bar>y\<bar> \<le> 1023" "\<bar>z\<bar> \<le> 1023" "\<bar>w\<bar> \<le> 1023"
  shows "is_int (x * y)" "is_int (z * w)" "is_int (x * y - z * w)" "is_int (a * (x * y - z * w))"
proof -
  have p: "\<bar>x * y\<bar> \<le> 1046529" and q: "\<bar>z * w\<bar> \<le> 1046529"
    using abs_mult_bound [OF assms(2,3)] abs_mult_bound [OF assms(4,5)] by simp_all
  then have d: "\<bar>x * y - z * w\<bar> \<le> 2093058" by linarith
  have t: "\<bar>a * (x * y - z * w)\<bar> \<le> 2141198334"
    using abs_mult_bound [OF assms(1) d] by simp
  from p show "is_int (x * y)" by (simp add: is_int_abs) linarith
  from q show "is_int (z * w)" by (simp add: is_int_abs) linarith
  from d show "is_int (x * y - z * w)" by (simp add: is_int_abs) linarith
  from t show "is_int (a * (x * y - z * w))" by (simp add: is_int_abs) linarith
qed

lemma entries_bounded_no_overflow:
  assumes "entries_bounded 1023 m"
  shows "det_no_overflow m" and "inv_no_overflow m"
proof -
  have e: "\<bar>m ! r ! c\<bar> \<le> 1023" if "r < 3" "c < 3" for r c
    using assms that by (simp add: entries_bounded_def list_all_iff)
  show "det_no_overflow m"
    unfolding det_no_overflow_def list_all_iff Let_def
  proof (intro ballI)
    fix i :: nat
    assume "i \<in> set [0..<3]"
    then have i: "i < 3" by simp
    show "is_int (m ! 1 ! ((i + 1) mod 3) * m ! 2 ! ((i + 2) mod 3)) \<and>
          is_int (m ! 1 ! ((i + 2) mod 3) * m ! 2 ! ((i + 1) mod 3)) \<and>
          is_int (m ! 1 ! ((i + 1) mod 3) * m ! 2 ! ((i + 2) mod 3)
                  - m ! 1 ! ((i + 2) mod 3) * m ! 2 ! ((i + 1) mod 3)) \<and>
          is_int (m ! 0 ! i * (m ! 1 ! ((i + 1) mod 3) * m ! 2 ! ((i + 2) mod 3)
                  - m ! 1 ! ((i + 2) mod 3) * m ! 2 ! ((i + 1) mod 3)))"
    proof -
      have b: "\<bar>m ! 0 ! i\<bar> \<le> 1023" "\<bar>m ! 1 ! ((i + 1) mod 3)\<bar> \<le> 1023"
        "\<bar>m ! 2 ! ((i + 2) mod 3)\<bar> \<le> 1023" "\<bar>m ! 1 ! ((i + 2) mod 3)\<bar> \<le> 1023"
        "\<bar>m ! 2 ! ((i + 1) mod 3)\<bar> \<le> 1023"
        using i by (simp_all only: e mod_less_divisor zero_less_numeral one_less_numeral_iff
            numeral_less_iff semiring_norm)
      from small_products_in_range [OF b] show ?thesis by blast
    qed
  qed
  show "inv_no_overflow m"
    unfolding inv_no_overflow_def list_all_iff Let_def
  proof (intro ballI)
    fix i j :: nat
    assume "i \<in> set [0..<3]" "j \<in> set [0..<3]"
    show "is_int (m ! ((j + 1) mod 3) ! ((i + 1) mod 3) * m ! ((j + 2) mod 3) ! ((i + 2) mod 3)) \<and>
          is_int (m ! ((j + 1) mod 3) ! ((i + 2) mod 3) * m ! ((j + 2) mod 3) ! ((i + 1) mod 3)) \<and>
          is_int (m ! ((j + 1) mod 3) ! ((i + 1) mod 3) * m ! ((j + 2) mod 3) ! ((i + 2) mod 3)
                  - m ! ((j + 1) mod 3) ! ((i + 2) mod 3) * m ! ((j + 2) mod 3) ! ((i + 1) mod 3))"
    proof -
      have b: "\<bar>0 :: int\<bar> \<le> 1023"
        "\<bar>m ! ((j + 1) mod 3) ! ((i + 1) mod 3)\<bar> \<le> 1023"
        "\<bar>m ! ((j + 2) mod 3) ! ((i + 2) mod 3)\<bar> \<le> 1023"
        "\<bar>m ! ((j + 1) mod 3) ! ((i + 2) mod 3)\<bar> \<le> 1023"
        "\<bar>m ! ((j + 2) mod 3) ! ((i + 1) mod 3)\<bar> \<le> 1023"
        by (simp_all only: e mod_less_divisor zero_less_numeral abs_zero zero_le_numeral)
      from small_products_in_range(1-3) [OF b] show ?thesis by blast
    qed
  qed
qed

lemma invert_of_int:
  fixes m :: "int list list"
  assumes m3: "is_3x3 m" and nz: "det3 m \<noteq> 0"
  shows "invert_3x3_matrix real_of_int m =
           Inr (map (map (\<lambda>x. real_of_int x / real_of_int (det3 m))) (adjugate m))"
    and "mat_mul3 (map (map (\<lambda>x. real_of_int x / real_of_int (det3 m))) (adjugate m))
           (map (map real_of_int) m) = identity3"
proof -
  have b: "at_least_3x3 m" by (rule is_3x3_at_least [OF m3])
  have dt: "det3 (map (map real_of_int) m) = real_of_int (det3 m)"
    by (rule det3_of_int [OF b])
  show "invert_3x3_matrix real_of_int m =
      Inr (map (map (\<lambda>x. real_of_int x / real_of_int (det3 m))) (adjugate m))"
    using invert_hom [of real_of_int m] m3 nz by (simp add: dt adjugate_of_int comp_def)
  have "mat_mul3 (map (map (\<lambda>x. x / det3 (map (map real_of_int) m)))
                  (adjugate (map (map real_of_int) m))) (map (map real_of_int) m) = identity3"
    using nz by (intro inverse_times_matrix_3x3 is_3x3_map m3) (simp add: dt)
  then show "mat_mul3 (map (map (\<lambda>x. real_of_int x / real_of_int (det3 m))) (adjugate m))
        (map (map real_of_int) m) = identity3"
    using m3 by (simp add: dt adjugate_of_int comp_def)
qed

lemma invert_of_int_zero:
  fixes m :: "int list list"
  assumes "at_least_3x3 m" and "det3 m = 0"
  shows "invert_3x3_matrix real_of_int m = Inl DivByZero"
  using invert_zero [of real_of_int m] assms by (simp add: det3_of_int)

text \<open>
  Claim C4, as the code has it, for the \<^verbatim>\<open>double\<close> instance (\<open>mat\<close>) and the \<^verbatim>\<open>int\<close> instance
  (\<open>imat\<close>, whose integer entries are \<open>map (map sint) imat\<close>): \<open>get_3x3_matrix_determinant\<close>
  returns the determinant of the matrix, for an \<^verbatim>\<open>int\<close> matrix provided no \<^verbatim>\<open>int\<close> operation
  of the loop overflows; when the determinant of a 3x3 matrix is not zero, \<open>invert_3x3_matrix\<close>
  returns the adjugate divided by the determinant, and that matrix times the argument is the
  identity matrix, for an \<^verbatim>\<open>int\<close> matrix provided no \<^verbatim>\<open>int\<close> operation of either loop
  overflows; when the determinant is zero, the inverse is undefined (the fault \<open>DivByZero\<close>).
  No operation overflows when every entry is at most 1023 in absolute value.
\<close>

theorem determinant_and_inverse_3x3:
  fixes mat :: "real list list" and imat :: "32 word list list"
  shows
  "(at_least_3x3 mat \<longrightarrow> get_3x3_matrix_determinant (\<lambda>x. x) mat = Inr (det3 mat)) \<and>
   (is_3x3 mat \<and> det3 mat \<noteq> 0 \<longrightarrow>
      invert_3x3_matrix (\<lambda>x. x) mat = Inr (map (map (\<lambda>x. x / det3 mat)) (adjugate mat)) \<and>
      mat_mul3 (map (map (\<lambda>x. x / det3 mat)) (adjugate mat)) mat = identity3) \<and>
   (at_least_3x3 mat \<and> det3 mat = 0 \<longrightarrow> invert_3x3_matrix (\<lambda>x. x) mat = Inl DivByZero) \<and>
   (at_least_3x3 imat \<and> det_no_overflow (map (map sint) imat) \<longrightarrow>
      get_3x3_matrix_determinant int_to_double imat =
        Inr (real_of_int (det3 (map (map sint) imat)))) \<and>
   (is_3x3 imat \<and> det_no_overflow (map (map sint) imat) \<and>
    inv_no_overflow (map (map sint) imat) \<and> det3 (map (map sint) imat) \<noteq> 0 \<longrightarrow>
      invert_3x3_matrix int_to_double imat =
        Inr (map (map (\<lambda>x. real_of_int x / real_of_int (det3 (map (map sint) imat))))
               (adjugate (map (map sint) imat))) \<and>
      mat_mul3 (map (map (\<lambda>x. real_of_int x / real_of_int (det3 (map (map sint) imat))))
                  (adjugate (map (map sint) imat)))
        (map (map real_of_int) (map (map sint) imat)) = identity3) \<and>
   (at_least_3x3 imat \<and> det_no_overflow (map (map sint) imat) \<and>
    inv_no_overflow (map (map sint) imat) \<and> det3 (map (map sint) imat) = 0 \<longrightarrow>
      invert_3x3_matrix int_to_double imat = Inl DivByZero) \<and>
   (entries_bounded 1023 (map (map sint) imat) \<longrightarrow>
      det_no_overflow (map (map sint) imat) \<and> inv_no_overflow (map (map sint) imat))"
proof (intro conjI impI)
  assume "at_least_3x3 mat"
  then show "get_3x3_matrix_determinant (\<lambda>x. x) mat = Inr (det3 mat)"
    by (rule determinant_real)
next
  assume h: "is_3x3 mat \<and> det3 mat \<noteq> 0"
  then show "invert_3x3_matrix (\<lambda>x. x) mat = Inr (map (map (\<lambda>x. x / det3 mat)) (adjugate mat))"
    using invert_hom [of "\<lambda>x::real. x" mat] by simp
  from h show "mat_mul3 (map (map (\<lambda>x. x / det3 mat)) (adjugate mat)) mat = identity3"
    by (simp add: inverse_times_matrix_3x3)
next
  assume "at_least_3x3 mat \<and> det3 mat = 0"
  then show "invert_3x3_matrix (\<lambda>x. x) mat = Inl DivByZero"
    using invert_zero [of "\<lambda>x::real. x" mat] by simp
next
  assume h: "at_least_3x3 imat \<and> det_no_overflow (map (map sint) imat)"
  then have hh: "at_least_3x3 imat" "det_no_overflow (map (map sint) imat)"
    by blast+
  have "get_3x3_matrix_determinant int_to_double imat =
      get_3x3_matrix_determinant real_of_int (map (map sint) imat)"
    by (rule determinant_word [OF hh])
  also have "\<dots> = Inr (real_of_int (det3 (map (map sint) imat)))"
    by (rule determinant_int [OF at_least_3x3_map [OF hh(1)]])
  finally show "get_3x3_matrix_determinant int_to_double imat =
      Inr (real_of_int (det3 (map (map sint) imat)))" .
next
  let ?m = "map (map sint) imat"
  assume h: "is_3x3 imat \<and> det_no_overflow ?m \<and> inv_no_overflow ?m \<and> det3 ?m \<noteq> 0"
  then have hh: "is_3x3 imat" "det_no_overflow ?m" "inv_no_overflow ?m" and nz: "det3 ?m \<noteq> 0"
    by blast+
  have b: "at_least_3x3 imat" by (rule is_3x3_at_least [OF hh(1)])
  have m3: "is_3x3 ?m" by (rule is_3x3_map [OF hh(1)])
  have w: "invert_3x3_matrix int_to_double imat = invert_3x3_matrix real_of_int ?m"
    by (rule invert_word [OF b hh(2,3)])
  show "invert_3x3_matrix int_to_double imat =
      Inr (map (map (\<lambda>x. real_of_int x / real_of_int (det3 ?m))) (adjugate ?m))"
    unfolding w by (rule invert_of_int(1) [OF m3 nz])
  show "mat_mul3 (map (map (\<lambda>x. real_of_int x / real_of_int (det3 ?m))) (adjugate ?m))
        (map (map real_of_int) ?m) = identity3"
    by (rule invert_of_int(2) [OF m3 nz])
next
  let ?m = "map (map sint) imat"
  assume h: "at_least_3x3 imat \<and> det_no_overflow ?m \<and> inv_no_overflow ?m \<and> det3 ?m = 0"
  then have hh: "at_least_3x3 imat" "det_no_overflow ?m" "inv_no_overflow ?m" and z: "det3 ?m = 0"
    by blast+
  have mb: "at_least_3x3 ?m" by (rule at_least_3x3_map [OF hh(1)])
  have "invert_3x3_matrix int_to_double imat = invert_3x3_matrix real_of_int ?m"
    by (rule invert_word [OF hh])
  also have "\<dots> = Inl DivByZero"
    by (rule invert_of_int_zero [OF mb z])
  finally show "invert_3x3_matrix int_to_double imat = Inl DivByZero" .
next
  assume "entries_bounded 1023 (map (map sint) imat)"
  then show "det_no_overflow (map (map sint) imat)" "inv_no_overflow (map (map sint) imat)"
    by (rule entries_bounded_no_overflow)+
qed

theorem determinant_and_inverse_3x3_witness:
  "is_3x3 [[2, 1, 0], [0, 3, 5], [7, 0, 4 :: real]] \<and>
   get_3x3_matrix_determinant (\<lambda>x. x) [[2, 1, 0], [0, 3, 5], [7, 0, 4 :: real]] = Inr 59 \<and>
   invert_3x3_matrix (\<lambda>x. x) [[2, 1, 0], [0, 3, 5], [7, 0, 4 :: real]] =
     Inr [[12 / 59, - (4 / 59), 5 / 59], [35 / 59, 8 / 59, - (10 / 59)], [- (21 / 59), 7 / 59, 6 / 59]] \<and>
   mat_mul3 [[12 / 59, - (4 / 59), 5 / 59], [35 / 59, 8 / 59, - (10 / 59)], [- (21 / 59), 7 / 59, 6 / 59]]
     [[2, 1, 0], [0, 3, 5], [7, 0, 4 :: real]] = identity3 \<and>
   invert_3x3_matrix (\<lambda>x. x) [[1, 2, 3], [2, 4, 6], [0, 0, 1 :: real]] = Inl DivByZero \<and>
   is_3x3 [[2, 1, 0], [0, 3, 5], [7, 0, 4 :: 32 word]] \<and>
   entries_bounded 1023 (map (map sint) [[2, 1, 0], [0, 3, 5], [7, 0, 4 :: 32 word]]) \<and>
   det_no_overflow (map (map sint) [[2, 1, 0], [0, 3, 5], [7, 0, 4 :: 32 word]]) \<and>
   inv_no_overflow (map (map sint) [[2, 1, 0], [0, 3, 5], [7, 0, 4 :: 32 word]]) \<and>
   get_3x3_matrix_determinant int_to_double [[2, 1, 0], [0, 3, 5], [7, 0, 4]] = Inr 59 \<and>
   invert_3x3_matrix int_to_double [[2, 1, 0], [0, 3, 5], [7, 0, 4]] =
     Inr [[12 / 59, - (4 / 59), 5 / 59], [35 / 59, 8 / 59, - (10 / 59)], [- (21 / 59), 7 / 59, 6 / 59]] \<and>
   entries_bounded 1023 (map (map sint) [[1, 2, 3], [2, 4, 6], [0, 0, 1 :: 32 word]]) \<and>
   det3 (map (map sint) [[1, 2, 3], [2, 4, 6], [0, 0, 1 :: 32 word]]) = 0 \<and>
   invert_3x3_matrix int_to_double [[1, 2, 3], [2, 4, 6], [0, 0, 1]] = Inl DivByZero"
proof -
  let ?m = "[[2, 1, 0], [0, 3, 5], [7, 0, 4 :: real]]"
  let ?rz = "[[1, 2, 3], [2, 4, 6], [0, 0, 1 :: real]]"
  let ?im = "[[2, 1, 0], [0, 3, 5], [7, 0, 4 :: 32 word]]"
  let ?iz = "[[1, 2, 3], [2, 4, 6], [0, 0, 1 :: 32 word]]"
  have m: "is_3x3 ?m" "at_least_3x3 ?m" "det3 ?m = 59"
    by (simp_all add: is_3x3_def at_least_3x3_def det3_def)
  have a: "map (map (\<lambda>x. x / 59)) (adjugate ?m) =
      [[12 / 59, - (4 / 59), 5 / 59], [35 / 59, 8 / 59, - (10 / 59)], [- (21 / 59), 7 / 59, 6 / 59]]"
    by (simp add: adjugate_explicit)
  have rz: "is_3x3 ?rz" "at_least_3x3 ?rz" "det3 ?rz = 0"
    by (simp_all add: is_3x3_def at_least_3x3_def det3_def)
  have im: "is_3x3 ?im" "at_least_3x3 ?im" "det3 (map (map sint) ?im) = 59"
    "entries_bounded 1023 (map (map sint) ?im)"
    by (simp_all add: is_3x3_def at_least_3x3_def det3_def entries_bounded_def upt_0_3)
  have ia: "map (map (\<lambda>x. real_of_int x / 59)) (adjugate (map (map sint) ?im)) =
      [[12 / 59, - (4 / 59), 5 / 59], [35 / 59, 8 / 59, - (10 / 59)], [- (21 / 59), 7 / 59, 6 / 59]]"
    by (simp add: adjugate_explicit)
  have iz: "is_3x3 ?iz" "at_least_3x3 ?iz" "det3 (map (map sint) ?iz) = 0"
    "entries_bounded 1023 (map (map sint) ?iz)"
    by (simp_all add: is_3x3_def at_least_3x3_def det3_def entries_bounded_def upt_0_3)
  show ?thesis
    using determinant_and_inverse_3x3 [of ?m ?im] determinant_and_inverse_3x3 [of ?rz ?iz]
      m a rz im ia iz by simp
qed

text \<open>
  In the \<^verbatim>\<open>int\<close> instance the products are computed in \<^verbatim>\<open>int\<close> before the conversion to
  \<^verbatim>\<open>double\<close>. On the diagonal matrix with the entries 65536, 65536 and 1, whose determinant is
  4294967296, the product \<open>65536 * 65536\<close> overflows: the determinant comes out as 0, and the
  inverse of this regular matrix is a division by zero.
\<close>

theorem determinant_3x3_int_overflow_counterexample:
  "is_3x3 [[65536, 0, 0], [0, 65536, 0], [0, 0, 1 :: 32 word]] \<and>
   det3 (map (map sint) [[65536, 0, 0], [0, 65536, 0], [0, 0, 1 :: 32 word]]) = 4294967296 \<and>
   get_3x3_matrix_determinant int_to_double [[65536, 0, 0], [0, 65536, 0], [0, 0, 1]] = Inr 0 \<and>
   invert_3x3_matrix int_to_double [[65536, 0, 0], [0, 65536, 0], [0, 0, 1]] = Inl DivByZero"
proof -
  have d: "get_3x3_matrix_determinant int_to_double [[65536, 0, 0], [0, 65536, 0], [0, 0, 1]] = Inr 0"
    by (simp add: get_3x3_matrix_determinant_def at_least_3x3_def upt_0_3 int_to_double_def)
  then show ?thesis
    by (simp add: invert_3x3_matrix_def is_3x3_def det3_def)
qed

section \<open>The reference parameters are left unchanged\<close>

lemma upt_0_2: "[0..<2] = [0, 1]"
  by (simp add: upt_rec)

lemma basis_st_eq:
  "basis_2x2_dot_2d_vector_st cv basis vec =
     leaving (basis, vec) (basis_2x2_dot_2d_vector cv basis vec)"
  by (simp add: basis_2x2_dot_2d_vector_st_def basis_2x2_dot_2d_vector_def leaving_def
        returning_def basis_2x2_dot_2d_vector_step_def upt_0_2)

lemma rotate_st_eq:
  "rotate_2d_vector_st cv vec theta = leaving (vec, theta) (rotate_2d_vector cv vec theta)"
  by (simp add: rotate_2d_vector_st_def rotate_2d_vector_def leaving_def returning_def Let_def)

lemma get_distance_st_eq:
  "get_distance_st cv Am RBn = leaving (Am, RBn) (get_distance cv Am RBn)"
  by (simp add: get_distance_st_def get_distance_def leaving_def returning_def Let_def)

lemma find_gcd_st_loop_eq:
  "find_gcd_st_loop n i \<lparr>refs = arr, locals = result\<rparr> =
     (case find_gcd_loop arr n i result of
        Inl e \<Rightarrow> Inl e
      | Inr x \<Rightarrow> Inr \<lparr>refs = arr, locals = x\<rparr>)"
proof (induction arr n i result rule: find_gcd_loop.induct)
  case (1 arr n i result)
  show ?case
    apply (subst find_gcd_st_loop.simps)
    apply (subst find_gcd_loop.simps)
    apply (auto split: sum.splits simp: "1.IH")
    done
qed

lemma find_gcd_st_eq: "find_gcd_st arr n = leaving arr (find_gcd arr n)"
  by (simp add: find_gcd_st_def find_gcd_def leaving_def returning_def find_gcd_st_loop_eq
        split: sum.splits)

lemma vec1x3_st_loop_eq:
  "vec1x3_dot_3x3_matrix_st_loop i \<lparr>refs = (a, matrix), locals = b\<rparr> =
     (case vec1x3_dot_3x3_matrix_loop a matrix i b of
        Inl e \<Rightarrow> Inl e
      | Inr x \<Rightarrow> Inr \<lparr>refs = (a, matrix), locals = x\<rparr>)"
proof (induction a matrix i b rule: vec1x3_dot_3x3_matrix_loop.induct)
  case (1 a matrix i b)
  let ?ok = "3 \<le> length a \<and> 3 \<le> length matrix \<and> i < length (matrix ! 0) \<and>
             i < length (matrix ! 1) \<and> i < length (matrix ! 2) \<and> i < length b"
  show ?case
  proof (cases "i < length a \<and> ?ok")
    case True
    then have less: "i < length a" and ok: ?ok by simp_all
    show ?thesis
      by (subst vec1x3_dot_3x3_matrix_st_loop.simps, subst vec1x3_dot_3x3_matrix_loop.simps)
         (use less ok "1.IH" [OF less ok] in simp)
  next
    case False
    then show ?thesis
      by (subst vec1x3_dot_3x3_matrix_st_loop.simps, subst vec1x3_dot_3x3_matrix_loop.simps)
         auto
  qed
qed

lemma vec1x3_st_eq:
  "vec1x3_dot_3x3_matrix_st a matrix = leaving (a, matrix) (vec1x3_dot_3x3_matrix a matrix)"
  by (simp add: vec1x3_dot_3x3_matrix_st_def vec1x3_dot_3x3_matrix_def leaving_def returning_def
        vec1x3_st_loop_eq split: sum.splits)

lemma determinant_st_eq:
  "get_3x3_matrix_determinant_st cv mat = leaving mat (get_3x3_matrix_determinant cv mat)"
proof (cases "at_least_3x3 mat")
  case True
  then show ?thesis
    by (auto simp add: get_3x3_matrix_determinant_st_def get_3x3_matrix_determinant_def
          leaving_def returning_def get_3x3_matrix_determinant_step_def upt_0_3 at_least_3x3_def
          Let_def)
next
  case False
  then have "\<not> 3 \<le> length mat \<or> \<not> 2 < length (mat ! 0) \<or> \<not> 2 < length (mat ! 1)
      \<or> \<not> 2 < length (mat ! 2)"
    by (auto simp: at_least_3x3_def)
  then have "fold_sum (get_3x3_matrix_determinant_step cv) [0, 1, 2] \<lparr>refs = mat, locals = 0\<rparr>
      = Inl OutOfBounds"
    by (auto simp: get_3x3_matrix_determinant_step_def Let_def split: sum.splits)
  with False show ?thesis
    by (simp add: get_3x3_matrix_determinant_st_def get_3x3_matrix_determinant_def leaving_def
          returning_def upt_0_3)
qed

lemma invert_st_loops:
  assumes "at_least_3x3 mat" and "D \<noteq> 0"
  shows "fold_sum (\<lambda>i. fold_sum (invert_3x3_matrix_step cv D i) [0..<3]) [0..<3]
           \<lparr>refs = mat, locals = replicate 3 (replicate 3 0)\<rparr> =
         Inr \<lparr>refs = mat, locals =
           fold (\<lambda>i minv.
              fold (\<lambda>j minv.
                minv[i := (minv ! i)[j :=
                  cv (mat ! ((j + 1) mod 3) ! ((i + 1) mod 3) * mat ! ((j + 2) mod 3) ! ((i + 2) mod 3)
                      - mat ! ((j + 1) mod 3) ! ((i + 2) mod 3) * mat ! ((j + 2) mod 3) ! ((i + 1) mod 3))
                  / D]])
              [0..<3] minv)
            [0..<3] (replicate 3 (replicate 3 0))\<rparr>"
  using assms
  by (simp add: invert_loops_explicit)
     (auto simp add: upt_0_3 replicate_3 invert_3x3_matrix_step_def at_least_3x3_def Let_def
        numeral_2_eq_2 [symmetric])

lemma invert_st_zero:
  assumes "at_least_3x3 mat"
  shows "fold_sum (\<lambda>i. fold_sum (invert_3x3_matrix_step cv 0 i) [0..<3]) [0..<3]
           \<lparr>refs = mat, locals = replicate 3 (replicate 3 0)\<rparr> = Inl DivByZero"
  using assms
  by (auto simp add: upt_0_3 replicate_3 invert_3x3_matrix_step_def at_least_3x3_def Let_def
        numeral_2_eq_2 [symmetric])

lemma invert_st_eq:
  "invert_3x3_matrix_st cv mat = leaving mat (invert_3x3_matrix cv mat)"
proof (cases "at_least_3x3 mat")
  case False
  then show ?thesis
    by (simp add: invert_3x3_matrix_st_def invert_3x3_matrix_def determinant_st_eq leaving_def
          get_3x3_matrix_determinant_def)
next
  case True
  then obtain D where D: "get_3x3_matrix_determinant cv mat = Inr D"
    by (simp add: get_3x3_matrix_determinant_def)
  show ?thesis
  proof (cases "D = 0")
    case True
    with \<open>at_least_3x3 mat\<close> show ?thesis
      by (simp add: invert_3x3_matrix_st_def invert_3x3_matrix_def determinant_st_eq leaving_def
            D invert_st_zero returning_def)
  next
    case False
    with \<open>at_least_3x3 mat\<close> show ?thesis
      by (simp add: invert_3x3_matrix_st_def invert_3x3_matrix_def determinant_st_eq leaving_def
            D invert_st_loops returning_def)
  qed
qed

text \<open>
  Claim C7: every kernel function leaves the vectors and matrices it is given by reference as
  they are, and its result is a function of its arguments: run as a state transformer on the
  objects its reference parameters denote, each function returns what its embedding as a
  function returns, together with the same objects, whenever the call is defined (and faults
  exactly when that embedding faults). \<open>get_gcd\<close> takes its two parameters by value and has no
  other variable; inside \<open>find_gcd\<close> it is called on values read from the frame.
\<close>

theorem kernel_functions_leave_arguments:
  "basis_2x2_dot_2d_vector_st cv basis vec =
     leaving (basis, vec) (basis_2x2_dot_2d_vector cv basis vec) \<and>
   rotate_2d_vector_st cw v theta = leaving (v, theta) (rotate_2d_vector cw v theta) \<and>
   get_distance_st cx Am RBn = leaving (Am, RBn) (get_distance cx Am RBn) \<and>
   find_gcd_st arr n = leaving arr (find_gcd arr n) \<and>
   vec1x3_dot_3x3_matrix_st a matrix = leaving (a, matrix) (vec1x3_dot_3x3_matrix a matrix) \<and>
   get_3x3_matrix_determinant_st cy mat = leaving mat (get_3x3_matrix_determinant cy mat) \<and>
   invert_3x3_matrix_st cz mat' = leaving mat' (invert_3x3_matrix cz mat')"
  by (simp only: basis_st_eq rotate_st_eq get_distance_st_eq find_gcd_st_eq vec1x3_st_eq
        determinant_st_eq invert_st_eq simp_thms)

section \<open>Properties of the lattice enumerator\<close>

lemma mem_sublattice:
  "p \<in> sublattice ((a, b), (c, d)) \<longleftrightarrow> (\<exists>x y. p = (x * a + y * c, x * b + y * d))"
  by (auto simp: sublattice_def)

lemma sublattice_add_multiple:
  "sublattice ((a + q * c, b + q * d), (c, d)) = sublattice ((a, b), (c, d))"
proof (rule set_eqI)
  fix p
  show "p \<in> sublattice ((a + q * c, b + q * d), (c, d)) \<longleftrightarrow> p \<in> sublattice ((a, b), (c, d))"
  proof
    assume "p \<in> sublattice ((a + q * c, b + q * d), (c, d))"
    then obtain x y where "p = (x * (a + q * c) + y * c, x * (b + q * d) + y * d)"
      by (auto simp: mem_sublattice)
    then have "p = (x * a + (x * q + y) * c, x * b + (x * q + y) * d)"
      by (simp add: algebra_simps)
    then show "p \<in> sublattice ((a, b), (c, d))"
      unfolding mem_sublattice by blast
  next
    assume "p \<in> sublattice ((a, b), (c, d))"
    then obtain x y where "p = (x * a + y * c, x * b + y * d)"
      by (auto simp: mem_sublattice)
    then have "p = (x * (a + q * c) + (y - x * q) * c, x * (b + q * d) + (y - x * q) * d)"
      by (simp add: algebra_simps)
    then show "p \<in> sublattice ((a + q * c, b + q * d), (c, d))"
      unfolding mem_sublattice by blast
  qed
qed

lemma sublattice_swap: "sublattice ((c, d), (a, b)) = sublattice ((a, b), (c, d))"
  by (auto simp: mem_sublattice) (metis add.commute)+

lemma sublattice_neg1: "sublattice ((- a, - b), (c, d)) = sublattice ((a, b), (c, d))"
proof (rule set_eqI)
  fix p
  have "(\<exists>x y. p = (x * - a + y * c, x * - b + y * d)) \<longleftrightarrow> (\<exists>x y. p = (x * a + y * c, x * b + y * d))"
    (is "?l \<longleftrightarrow> ?r")
  proof
    assume ?l
    then obtain x y where "p = ((- x) * a + y * c, (- x) * b + y * d)" by auto
    then show ?r by blast
  next
    assume ?r
    then obtain x y where "p = ((- x) * - a + y * c, (- x) * - b + y * d)" by auto
    then show ?l by blast
  qed
  then show "p \<in> sublattice ((- a, - b), (c, d)) \<longleftrightarrow> p \<in> sublattice ((a, b), (c, d))"
    by (simp add: mem_sublattice)
qed

lemma sublattice_neg2: "sublattice ((a, b), (- c, - d)) = sublattice ((a, b), (c, d))"
  using sublattice_neg1 [of c d a b] by (simp add: sublattice_swap)

lemma sublattice_step:
  "sublattice ((c, d), (a mod c, b - (a div c) * d)) = sublattice ((a, b), (c, d))"
proof -
  have "a mod c = a + (- (a div c)) * c"
    by (simp add: minus_div_mult_eq_mod [symmetric])
  moreover have "b - (a div c) * d = b + (- (a div c)) * d" by simp
  ultimately have "sublattice ((a mod c, b - (a div c) * d), (c, d)) = sublattice ((a, b), (c, d))"
    using sublattice_add_multiple [of a "- (a div c)" c b d] by simp
  then show ?thesis by (simp add: sublattice_swap)
qed

lemma eliminate_sublattice: "sublattice (eliminate r1 r2) = sublattice (r1, r2)"
proof (induction r1 r2 rule: eliminate.induct)
  case (1 a b c d)
  show ?case
  proof (cases "c = 0")
    case True
    then show ?thesis by (simp add: eliminate.simps)
  next
    case False
    then have "eliminate (a, b) (c, d) = eliminate (c, d) (a mod c, b - (a div c) * d)"
      by (simp add: eliminate.simps)
    with "1.IH" [OF False] show ?thesis by (simp add: sublattice_step)
  qed
qed

lemma eliminate_det: "\<bar>det2x2 (eliminate r1 r2)\<bar> = \<bar>det2x2 (r1, r2)\<bar>"
proof (induction r1 r2 rule: eliminate.induct)
  case (1 a b c d)
  show ?case
  proof (cases "c = 0")
    case True
    then show ?thesis by (simp add: eliminate.simps)
  next
    case False
    then have e: "eliminate (a, b) (c, d) = eliminate (c, d) (a mod c, b - (a div c) * d)"
      by (simp add: eliminate.simps)
    have "det2x2 ((c, d), (r, b - q * d)) = - det2x2 ((a, b), (c, d))" if "a = q * c + r" for q r
      by (simp add: that det2x2_def algebra_simps)
    from this [of "a div c" "a mod c"]
    have "det2x2 ((c, d), (a mod c, b - (a div c) * d)) = - det2x2 ((a, b), (c, d))"
      by simp
    with "1.IH" [OF False] e show ?thesis by simp
  qed
qed

lemma eliminate_zero: "fst (snd (eliminate r1 r2)) = 0"
  by (induction r1 r2 rule: eliminate.induct) (simp add: eliminate.simps)

lemma eliminate_shape:
  obtains a b d where "eliminate r1 r2 = ((a, b), (0, d))"
  using eliminate_zero [of r1 r2] by (cases "eliminate r1 r2") auto

lemma eliminate_fixed: "eliminate (a, b) (0, d) = ((a, b), (0, d))"
  by (simp add: eliminate.simps)

lemma hermite_eq:
  assumes "eliminate (fst M) (snd M) = ((a, b), (0, d))"
  shows "hermite M = ((\<bar>a\<bar>, (if a < 0 then - b else b) mod \<bar>d\<bar>), (0, \<bar>d\<bar>))"
  using assms by (simp add: hermite_def Let_def)

lemma sublattice_reduce:
  "sublattice ((a, b mod d), (0, d)) = sublattice ((a, b), (0, d))"
proof -
  have "b mod d = b + (- (b div d)) * d"
    by (simp add: minus_div_mult_eq_mod [symmetric])
  then show ?thesis
    using sublattice_add_multiple [of a "- (b div d)" 0 b d] by simp
qed

lemma hermite_sublattice: "sublattice (hermite M) = sublattice M"
proof -
  obtain a b d where e: "eliminate (fst M) (snd M) = ((a, b), (0, d))"
    by (rule eliminate_shape)
  have "sublattice M = sublattice ((a, b), (0, d))"
    using eliminate_sublattice [of "fst M" "snd M"] e by simp
  also have "\<dots> = sublattice ((\<bar>a\<bar>, if a < 0 then - b else b), (0, d))"
    using sublattice_neg1 [of a b 0 d] by (simp add: abs_if)
  also have "\<dots> = sublattice ((\<bar>a\<bar>, if a < 0 then - b else b), (0, \<bar>d\<bar>))"
    using sublattice_neg2 [of "\<bar>a\<bar>" "if a < 0 then - b else b" 0 d] by (simp add: abs_if)
  also have "\<dots> = sublattice ((\<bar>a\<bar>, (if a < 0 then - b else b) mod \<bar>d\<bar>), (0, \<bar>d\<bar>))"
    by (simp only: sublattice_reduce)
  finally show ?thesis by (simp add: hermite_eq [OF e])
qed

lemma hermite_det: "\<bar>det2x2 (hermite M)\<bar> = \<bar>det2x2 M\<bar>"
proof -
  obtain a b d where e: "eliminate (fst M) (snd M) = ((a, b), (0, d))"
    by (rule eliminate_shape)
  have "\<bar>det2x2 M\<bar> = \<bar>det2x2 ((a, b), (0, d))\<bar>"
    using eliminate_det [of "fst M" "snd M"] e by simp
  then show ?thesis
    by (simp add: hermite_eq [OF e] det2x2_def abs_mult)
qed

lemma hermite_canonical:
  assumes "det2x2 M \<noteq> 0"
  shows "canonical (hermite M)"
proof -
  obtain a b d where e: "eliminate (fst M) (snd M) = ((a, b), (0, d))"
    by (rule eliminate_shape)
  have "\<bar>det2x2 M\<bar> = \<bar>det2x2 ((a, b), (0, d))\<bar>"
    using eliminate_det [of "fst M" "snd M"] e by simp
  with assms have "a \<noteq> 0" "d \<noteq> 0"
    by (auto simp: det2x2_def)
  then show ?thesis
    by (simp add: hermite_eq [OF e] canonical_def)
qed

lemma hermite_idem:
  assumes "canonical M"
  shows "hermite M = M"
proof -
  obtain a b c d where M: "M = ((a, b), (c, d))" by (metis surj_pair)
  with assms have c: "0 < a" "c = 0" "0 < d" "0 \<le> b" "b < d"
    by (simp_all add: canonical_def)
  then have "eliminate (fst M) (snd M) = ((a, b), (0, d))"
    by (simp add: M eliminate_fixed)
  from hermite_eq [OF this] c show ?thesis by (simp add: M)
qed

lemma canonical_unique:
  assumes "canonical M" and "canonical M'" and "sublattice M = sublattice M'"
  shows "M = M'"
proof -
  obtain a b c d where M: "M = ((a, b), (c, d))" by (metis surj_pair)
  obtain a' b' c' d' where M': "M' = ((a', b'), (c', d'))" by (metis surj_pair)
  from assms(1) M have c: "0 < a" "c = 0" "0 < d" "0 \<le> b" "b < d"
    by (simp_all add: canonical_def)
  from assms(2) M' have c': "0 < a'" "c' = 0" "0 < d'" "0 \<le> b'" "b' < d'"
    by (simp_all add: canonical_def)
  have sub: "a' dvd a \<and> d' dvd d \<and> (a = a' \<longrightarrow> d' dvd b - b')"
    if "sublattice ((a, b), (0, d)) \<subseteq> sublattice ((a', b'), (0, d'))"
      and "0 < a'"
    for a b d a' b' d' :: int
  proof -
    have "(a, b) \<in> sublattice ((a, b), (0, d))"
      unfolding mem_sublattice by (rule exI [of _ 1], rule exI [of _ 0]) simp
    with that(1) have "(a, b) \<in> sublattice ((a', b'), (0, d'))" by blast
    then obtain x y where xy: "a = x * a'" "b = x * b' + y * d'"
      by (auto simp: mem_sublattice)
    have "(0, d) \<in> sublattice ((a, b), (0, d))"
      unfolding mem_sublattice by (rule exI [of _ 0], rule exI [of _ 1]) simp
    with that(1) have "(0, d) \<in> sublattice ((a', b'), (0, d'))" by blast
    then obtain u v where uv: "0 = u * a'" "d = u * b' + v * d'"
      by (auto simp: mem_sublattice)
    from uv(1) that(2) have "u = 0" by simp
    with uv(2) have "d' dvd d" by simp
    moreover from xy(1) have "a' dvd a" by simp
    moreover have "d' dvd b - b'" if "a = a'"
    proof -
      from that xy(1) \<open>0 < a'\<close> have "x = 1" by simp
      with xy(2) show ?thesis by simp
    qed
    ultimately show ?thesis by blast
  qed
  from assms(3) have s1: "sublattice ((a, b), (0, d)) \<subseteq> sublattice ((a', b'), (0, d'))"
    and s2: "sublattice ((a', b'), (0, d')) \<subseteq> sublattice ((a, b), (0, d))"
    by (simp_all add: M M' c c')
  from sub [OF s1 c'(1)] sub [OF s2 c(1)]
  have dv: "a' dvd a" "a dvd a'" "d' dvd d" "d dvd d'" and bb: "a = a' \<longrightarrow> d' dvd b - b'"
    by blast+
  from dv c c' have "a = a'" "d = d'"
    by (auto intro: zdvd_antisym_nonneg)
  with bb have "d dvd b - b'" by simp
  moreover have "\<bar>b - b'\<bar> < d" using c c' \<open>d = d'\<close> by auto
  ultimately have "b - b' = 0"
    using zdvd_not_zless [of "\<bar>b - b'\<bar>" d] by auto
  with \<open>a = a'\<close> \<open>d = d'\<close> show ?thesis by (simp add: M M' c c')
qed

lemma mem_candidates:
  "((a, b), (c, d)) \<in> set (candidates N) \<longleftrightarrow>
     a \<in> {- N..N} \<and> b \<in> {- N..N} \<and> c \<in> {- N..N} \<and> d \<in> {- N..N}"
  by (simp add: candidates_def image_iff)

lemma canonical_candidate:
  assumes "canonical M" and "\<bar>det2x2 M\<bar> \<le> N"
  shows "M \<in> set (candidates N)"
proof -
  obtain a b c d where M: "M = ((a, b), (c, d))" by (metis surj_pair)
  with assms(1) have c: "0 < a" "c = 0" "0 < d" "0 \<le> b" "b < d"
    by (simp_all add: canonical_def)
  from assms(2) c have ad: "a * d \<le> N" by (simp add: M det2x2_def)
  have "a \<le> a * d" using c by (simp add: mult_le_cancel_left1)
  moreover have "d \<le> a * d" using c by (simp add: mult_le_cancel_right1)
  ultimately have "a \<le> N" "d \<le> N" using ad by simp_all
  with c show ?thesis by (simp add: M mem_candidates)
qed

lemma enumerator_set:
  "set (lattice_enumerator N) = hermite ` {M \<in> set (candidates N). det_in_bound N M}"
  by (simp add: lattice_enumerator_def)

lemma enumerator_member:
  assumes "M \<in> set (lattice_enumerator N)"
  shows "canonical M \<and> det_in_bound N M"
proof -
  from assms obtain K where K: "M = hermite K" "det_in_bound N K"
    by (auto simp: enumerator_set)
  then have "det2x2 K \<noteq> 0" by (auto simp: det_in_bound_def)
  with K show ?thesis
    by (simp add: hermite_canonical det_in_bound_def hermite_det)
qed

lemma enumerator_complete:
  assumes "det_in_bound N K"
  shows "hermite K \<in> set (lattice_enumerator N)"
proof -
  from assms have nz: "det2x2 K \<noteq> 0" by (auto simp: det_in_bound_def)
  have c: "canonical (hermite K)" by (rule hermite_canonical [OF nz])
  have b: "det_in_bound N (hermite K)"
    using assms by (simp add: det_in_bound_def hermite_det)
  then have "hermite K \<in> set (candidates N)"
    using canonical_candidate [OF c] by (simp add: det_in_bound_def)
  with b have "hermite (hermite K) \<in> set (lattice_enumerator N)"
    unfolding enumerator_set by blast
  then show ?thesis by (simp add: hermite_idem [OF c])
qed

text \<open>
  Claim C8, as the modelled enumerator has it: every emitted matrix has
  \<open>1 \<le> |det(M)| \<le> N_max\<close>; no matrix is emitted twice and no two emitted matrices generate
  the same sublattice; and every integer matrix \<open>K\<close> with \<open>1 \<le> |det(K)| \<le> N_max\<close> generates
  the sublattice of an emitted matrix, its Hermite normal form.
\<close>

theorem lattice_enumerator_representatives:
  "(M \<in> set (lattice_enumerator N) \<longrightarrow> 1 \<le> \<bar>det2x2 M\<bar> \<and> \<bar>det2x2 M\<bar> \<le> N) \<and>
   distinct (lattice_enumerator N) \<and>
   (M \<in> set (lattice_enumerator N) \<and> M' \<in> set (lattice_enumerator N) \<and>
      sublattice M = sublattice M' \<longrightarrow> M = M') \<and>
   (1 \<le> \<bar>det2x2 K\<bar> \<and> \<bar>det2x2 K\<bar> \<le> N \<longrightarrow>
      hermite K \<in> set (lattice_enumerator N) \<and> sublattice (hermite K) = sublattice K)"
proof (intro conjI impI)
  assume "M \<in> set (lattice_enumerator N)"
  from enumerator_member [OF this]
  show "1 \<le> \<bar>det2x2 M\<bar>" "\<bar>det2x2 M\<bar> \<le> N" by (simp_all add: det_in_bound_def)
next
  show "distinct (lattice_enumerator N)" by (simp add: lattice_enumerator_def)
next
  assume "M \<in> set (lattice_enumerator N) \<and> M' \<in> set (lattice_enumerator N) \<and>
      sublattice M = sublattice M'"
  then show "M = M'"
    using enumerator_member [of M N] enumerator_member [of M' N] canonical_unique [of M M']
    by blast
next
  assume "1 \<le> \<bar>det2x2 K\<bar> \<and> \<bar>det2x2 K\<bar> \<le> N"
  then have "det_in_bound N K" by (simp add: det_in_bound_def)
  then show "hermite K \<in> set (lattice_enumerator N)" by (rule enumerator_complete)
  show "sublattice (hermite K) = sublattice K" by (rule hermite_sublattice)
qed

theorem lattice_enumerator_representatives_witness:
  "lattice_enumerator 2 = [((1, 0), (0, 1)), ((1, 0), (0, 2)), ((1, 1), (0, 2)), ((2, 0), (0, 1))] \<and>
   \<bar>det2x2 ((1, 1), (0, 2))\<bar> = 2 \<and>
   sublattice ((1, 1), (0, 2)) \<noteq> sublattice ((1, 0), (0, 2)) \<and>
   \<bar>det2x2 ((2, 3), (0, 1))\<bar> = 2 \<and> hermite ((2, 3), (0, 1)) = ((2, 0), (0, 1)) \<and>
   sublattice ((2, 0), (0, 1)) = sublattice ((2, 3), (0, 1))"
proof -
  have e: "lattice_enumerator 2 =
      [((1, 0), (0, 1)), ((1, 0), (0, 2)), ((1, 1), (0, 2)), ((2, 0), (0, 1))]"
    by code_simp
  have d: "\<bar>det2x2 ((1, 1), (0, 2))\<bar> = 2" "\<bar>det2x2 ((2, 3), (0, 1))\<bar> = 2"
    "hermite ((2, 3), (0, 1)) = ((2, 0), (0, 1))"
    by code_simp+
  show ?thesis
    using lattice_enumerator_representatives [of "((1, 1), (0, 2))" 2 "((1, 0), (0, 2))" "((2, 3), (0, 1))"]
      e d by auto
qed

text \<open>
  The enumerator does not emit every matrix with the determinant in bound: for \<open>N_max = 1\<close> it
  emits the identity matrix only, not the matrix with the rows \<open>(1, 1)\<close> and \<open>(0, 1)\<close> of
  determinant 1, which generates the same sublattice as the identity.
\<close>

theorem lattice_enumerator_counterexample:
  "det_in_bound 1 ((1, 1), (0, 1)) \<and> lattice_enumerator 1 = [((1, 0), (0, 1))] \<and>
   ((1, 1), (0, 1)) \<notin> set (lattice_enumerator 1)"
  by code_simp

end
